(* ===== verification/Prelude.thy ===== *)
theory Prelude
  imports Main "HOL-Library.AList" "HOL-Library.Multiset"
begin

text \<open>
  Shared vocabulary of the development: the names of the model's types (tokens, the
  prefix tuples that key the frequency table, the two levels of \<open>defaultdict\<close>),
  the interface of the random source, the collections of rewrite rules the component
  theories contribute to, and the generic lemmas on association lists and sums that
  several components use.
\<close>

section \<open>Rule collections\<close>

named_theorems py_str_simps \<open>characteristic equations of the modelled Python string methods\<close>
named_theorems table_simps \<open>rewrite rules for the lookup functions of the frequency table\<close>

section \<open>Types of the model\<close>

text \<open>
  A token is a Python \<open>str\<close>; characters are modelled as code points below 256
  (HOL's \<open>char\<close>). A prefix is the Python list \<open>prefix\<close> of \<open>markov.py\<close>, whose
  entries are either \<open>None\<close> (the start marker) or a token; \<open>tuple(prefix)\<close> is the
  same sequence, so it is modelled by the same list.
\<close>

type_synonym token = string
type_synonym prefix = "token option list"

text \<open>
  \<open>defaultdict(int)\<close> mapping tokens to counts, and the outer \<open>defaultdict\<close> mapping
  prefixes to those: association lists in insertion order, which is the iteration
  order of a Python \<open>dict\<close> and therefore the order in which \<open>choice\<close> scans the
  successors.
\<close>

type_synonym counts = "(token \<times> int) list"
type_synonym table = "(prefix \<times> counts) list"

text \<open>
  The random source: \<open>randrange(total)\<close> draws an integer from a generator state
  \<open>'r\<close> and returns the next state. The model is parametric in it; the only
  property the proofs use is \<open>randrange_ok\<close>.
\<close>

type_synonym 'r randrange = "'r \<Rightarrow> int \<Rightarrow> int \<times> 'r"

definition randrange_ok :: "'r randrange \<Rightarrow> bool" where
  "randrange_ok rr \<longleftrightarrow> (\<forall>r n. 0 < n \<longrightarrow> 0 \<le> fst (rr r n) \<and> fst (rr r n) < n)"

section \<open>Association lists as \<open>defaultdict\<close>\<close>

text \<open>
  \<open>AList.update_with_aux v k f al\<close> is the write \<open>d[k] = f(d[k])\<close> on a
  \<open>defaultdict\<close> with default \<open>v\<close>: an existing key is updated in place, a new key is
  appended at the end.
\<close>

abbreviation keys :: "('k \<times> 'v) list \<Rightarrow> 'k list" where
  "keys al \<equiv> map fst al"

abbreviation get_default :: "'v \<Rightarrow> ('k \<times> 'v) list \<Rightarrow> 'k \<Rightarrow> 'v" where
  "get_default v al k \<equiv> (case map_of al k of None \<Rightarrow> v | Some x \<Rightarrow> x)"

lemma randrange_okD:
  assumes "randrange_ok rr" "0 < n" "rr r n = (c, r')"
  shows "0 \<le> c" "c < n"
proof -
  from assms(1) have "0 < n \<longrightarrow> 0 \<le> fst (rr r n) \<and> fst (rr r n) < n"
    unfolding randrange_ok_def by blast
  with assms(2,3) show "0 \<le> c" "c < n" by simp_all
qed

lemma get_default_update_with_aux [simp]:
  "get_default d (AList.update_with_aux v k f al) k' =
     (if k' = k then f (get_default v al k) else get_default d al k')"
  by (simp add: AList.map_of_update_with_aux split: option.split)

lemma keys_update_with_aux [simp]:
  "set (keys (AList.update_with_aux v k f al)) = insert k (set (keys al))"
  using AList.dom_update_with_aux [of v k f al] by simp

lemma values_update_with_aux:
  "x \<in> snd ` set (AList.update_with_aux v k f al) \<Longrightarrow>
     x \<in> snd ` set al \<or> x = f (get_default v al k)"
proof (induction al)
  case Nil
  then show ?case by simp
next
  case (Cons p al)
  then show ?case by (cases p) (auto split: if_splits)
qed

lemma map_of_SomeD_values: "map_of al k = Some x \<Longrightarrow> x \<in> snd ` set al"
  by (force dest: map_of_SomeD)

section \<open>Finite ranges of integers\<close>

lemma finite_int_range: "finite {c::int. 0 \<le> c \<and> c < n \<and> P c}"
  by (rule finite_subset [of _ "{0..<n}"]) auto

lemma shift_image:
  "{c::int. w \<le> c \<and> c < w + t \<and> P (c - w)} = (\<lambda>d. d + w) ` {d. 0 \<le> d \<and> d < t \<and> P d}"
proof (rule set_eqI)
  fix c
  show "c \<in> {c. w \<le> c \<and> c < w + t \<and> P (c - w)} \<longleftrightarrow>
      c \<in> (\<lambda>d. d + w) ` {d. 0 \<le> d \<and> d < t \<and> P d}"
  proof
    assume "c \<in> {c. w \<le> c \<and> c < w + t \<and> P (c - w)}"
    then have "c - w \<in> {d. 0 \<le> d \<and> d < t \<and> P d}" and "c = (c - w) + w" by auto
    then show "c \<in> (\<lambda>d. d + w) ` {d. 0 \<le> d \<and> d < t \<and> P d}" by (rule rev_image_eqI)
  qed auto
qed

lemma card_shift_image:
  "card {c::int. w \<le> c \<and> c < w + t \<and> P (c - w)} = card {d. 0 \<le> d \<and> d < t \<and> P d}"
proof -
  have "inj_on (\<lambda>d::int. d + w) {d. 0 \<le> d \<and> d < t \<and> P d}" by (rule inj_onI) simp
  then show ?thesis by (simp only: shift_image card_image)
qed

section \<open>Sums of weights\<close>

lemma sum_list_nonneg_snd:
  "\<forall>p\<in>set ws. 0 \<le> snd p \<Longrightarrow> 0 \<le> sum_list (map snd ws :: int list)"
  by (induction ws) auto

end
