(* ===== verification/PyStr.thy ===== *)
theory PyStr
  imports Prelude
begin

text \<open>
  The Python \<open>str\<close> methods that \<open>markov.py\<close> calls: \<open>split()\<close> on whitespace,
  \<open>split(sep)\<close>, \<open>sep.join(parts)\<close>, \<open>strip()\<close> and \<open>strip(chars)\<close>,
  \<open>endswith\<close> and the substring test \<open>in\<close>. They are the CPython semantics restricted
  to code points below 256; \<open>str.isspace\<close> on that range holds for the characters
  9--13, 28--32, 133 and 160.
\<close>

section \<open>Definitions\<close>

definition py_whitespace :: "char list" where
  "py_whitespace =
     [CHR 0x09, CHR 0x0A, CHR 0x0B, CHR 0x0C, CHR 0x0D, CHR 0x1C, CHR 0x1D, CHR 0x1E,
      CHR 0x1F, CHR 0x20, CHR 0x85, CHR 0xA0]"

definition is_space :: "char \<Rightarrow> bool" where
  "is_space c \<longleftrightarrow> c \<in> set py_whitespace"

text \<open>\<open>s.split()\<close>: the maximal runs of non-whitespace characters, left to right.\<close>

fun split_ws :: "string \<Rightarrow> string \<Rightarrow> string list" where
  "split_ws cur [] = (if cur = [] then [] else [cur])"
| "split_ws cur (c # cs) =
     (if is_space c then (if cur = [] then split_ws [] cs else cur # split_ws [] cs)
      else split_ws (cur @ [c]) cs)"

definition py_split :: "string \<Rightarrow> string list" where
  "py_split s = split_ws [] s"

text \<open>\<open>s.strip(chars)\<close> and \<open>s.strip()\<close>: drop the leading and the trailing run.\<close>

definition py_strip_by :: "(char \<Rightarrow> bool) \<Rightarrow> string \<Rightarrow> string" where
  "py_strip_by P s = rev (dropWhile P (rev (dropWhile P s)))"

definition py_strip :: "string \<Rightarrow> string \<Rightarrow> string" where
  "py_strip chars s = py_strip_by (\<lambda>c. c \<in> set chars) s"

definition py_strip_ws :: "string \<Rightarrow> string" where
  "py_strip_ws s = py_strip_by is_space s"

definition py_endswith :: "string \<Rightarrow> string \<Rightarrow> bool" where
  "py_endswith s suffix \<longleftrightarrow>
     length suffix \<le> length s \<and> drop (length s - length suffix) s = suffix"

text \<open>\<open>sub in s\<close> for strings: the substring test.\<close>

fun py_in :: "string \<Rightarrow> string \<Rightarrow> bool" where
  "py_in sub [] \<longleftrightarrow> sub = []"
| "py_in sub (c # cs) \<longleftrightarrow> take (length sub) (c # cs) = sub \<or> py_in sub cs"

text \<open>
  \<open>s.split(sep)\<close> for a non-empty \<open>sep\<close>: cut at each leftmost non-overlapping
  occurrence. \<open>markov.py\<close> calls it with \<open>sep = "--"\<close> only; CPython raises
  \<open>ValueError\<close> for an empty separator, which the model does not need and leaves
  unsplit.
\<close>

function split_sep :: "string \<Rightarrow> string \<Rightarrow> string \<Rightarrow> string list" where
  "split_sep sep cur [] = [cur]"
| "split_sep sep cur (c # cs) =
     (if sep \<noteq> [] \<and> take (length sep) (c # cs) = sep
      then cur # split_sep sep [] (drop (length sep) (c # cs))
      else split_sep sep (cur @ [c]) cs)"
  by pat_completeness auto
termination
  by (relation "measure (\<lambda>(sep, cur, s). length s)") auto

definition py_split_sep :: "string \<Rightarrow> string \<Rightarrow> string list" where
  "py_split_sep sep s = split_sep sep [] s"

text \<open>\<open>sep.join(parts)\<close>.\<close>

fun py_join :: "string \<Rightarrow> string list \<Rightarrow> string" where
  "py_join sep [] = []"
| "py_join sep [x] = x"
| "py_join sep (x # y # xs) = x @ sep @ py_join sep (y # xs)"

section \<open>Lemmas\<close>

lemma py_join_Cons:
  "py_join sep (x # xs) = (if xs = [] then x else x @ sep @ py_join sep xs)"
  by (cases xs) auto

lemma split_sep_not_Nil [simp]: "split_sep sep cur s \<noteq> []"
  by (induction sep cur s rule: split_sep.induct) auto

text \<open>\<open>sep.join(s.split(sep)) == s\<close>: splitting at a separator loses nothing.\<close>

lemma py_join_split_sep_acc:
  "py_join sep (split_sep sep cur s) = cur @ s"
proof (induction sep cur s rule: split_sep.induct)
  case (1 sep cur)
  then show ?case by simp
next
  case (2 sep cur c cs)
  show ?case
  proof (cases "sep \<noteq> [] \<and> take (length sep) (c # cs) = sep")
    case True
    then have "c # cs = sep @ drop (length sep) (c # cs)"
      by (metis append_take_drop_id)
    with True "2.IH"(1) show ?thesis
      by (simp add: py_join_Cons)
  next
    case False
    have "split_sep sep cur (c # cs) = split_sep sep (cur @ [c]) cs"
      by (simp only: split_sep.simps(2) if_not_P [OF False])
    with "2.IH"(2) [OF False] show ?thesis by simp
  qed
qed

lemma py_in_iff: "py_in sub s \<longleftrightarrow> (\<exists>a b. s = a @ sub @ b)"
proof (induction s)
  case Nil
  then show ?case by simp
next
  case (Cons c cs)
  show ?case
  proof
    assume "py_in sub (c # cs)"
    then consider "take (length sub) (c # cs) = sub" | "py_in sub cs" by auto
    then show "\<exists>a b. c # cs = a @ sub @ b"
    proof cases
      case 1
      then show ?thesis by (metis append_Nil append_take_drop_id)
    next
      case 2
      with Cons.IH obtain a b where "cs = a @ sub @ b" by blast
      then show ?thesis by (metis append_Cons)
    qed
  next
    assume "\<exists>a b. c # cs = a @ sub @ b"
    then obtain a b where ab: "c # cs = a @ sub @ b" by blast
    show "py_in sub (c # cs)"
    proof (cases a)
      case Nil
      with ab have "take (length sub) (c # cs) = sub" by simp
      then show ?thesis by simp
    next
      case (Cons a1 a')
      with ab have "cs = a' @ sub @ b" by simp
      with Cons.IH have "py_in sub cs" by blast
      then show ?thesis by simp
    qed
  qed
qed

text \<open>Whitespace splitting: the pieces are non-empty and contain no whitespace.\<close>

lemma split_ws_pieces:
  "w \<in> set (split_ws cur s) \<Longrightarrow> \<forall>c\<in>set cur. \<not> is_space c \<Longrightarrow>
     w \<noteq> [] \<and> (\<forall>c\<in>set w. \<not> is_space c)"
proof (induction cur s rule: split_ws.induct)
  case (1 cur)
  then show ?case by (simp split: if_splits)
next
  case (2 cur c cs)
  have nil: "\<forall>c\<in>set ([]::string). \<not> is_space c" by simp
  show ?case
  proof (cases "is_space c")
    case True
    show ?thesis
    proof (cases "cur = []")
      case True': True
      with True "2.prems"(1) have "w \<in> set (split_ws [] cs)" by simp
      from "2.IH"(1) [OF True True' this nil] show ?thesis .
    next
      case False': False
      with True "2.prems"(1) have "w = cur \<or> w \<in> set (split_ws [] cs)" by simp
      then show ?thesis
      proof
        assume "w = cur"
        with False' "2.prems"(2) show ?thesis by simp
      next
        assume "w \<in> set (split_ws [] cs)"
        from "2.IH"(2) [OF True False' this nil] show ?thesis .
      qed
    qed
  next
    case False
    with "2.prems"(1) have "w \<in> set (split_ws (cur @ [c]) cs)" by simp
    moreover from False "2.prems"(2) have "\<forall>c'\<in>set (cur @ [c]). \<not> is_space c'" by simp
    ultimately show ?thesis using "2.IH"(3) [OF False] by blast
  qed
qed

lemma py_split_pieces:
  "w \<in> set (py_split s) \<Longrightarrow> w \<noteq> [] \<and> (\<forall>c\<in>set w. \<not> is_space c)"
  unfolding py_split_def by (erule split_ws_pieces) simp

lemma split_ws_no_space:
  "\<forall>c\<in>set s. \<not> is_space c \<Longrightarrow> split_ws cur s = (if cur @ s = [] then [] else [cur @ s])"
  by (induction cur s rule: split_ws.induct) auto

lemma split_ws_space:
  "is_space c \<Longrightarrow> split_ws cur (xs @ c # ys) = split_ws cur xs @ split_ws [] ys"
  by (induction cur xs rule: split_ws.induct) auto

lemma py_split_space [py_str_simps]:
  "is_space c \<Longrightarrow> py_split (xs @ c # ys) = py_split xs @ py_split ys"
  by (simp add: py_split_def split_ws_space)

lemma py_split_word [py_str_simps]:
  "\<forall>c\<in>set w. \<not> is_space c \<Longrightarrow> py_split w = (if w = [] then [] else [w])"
  by (simp add: py_split_def split_ws_no_space)

text \<open>Stripping: a string none of whose ends is stripped is unchanged.\<close>

lemma py_strip_by_id:
  assumes "s = [] \<or> (\<not> P (hd s) \<and> \<not> P (last s))"
  shows "py_strip_by P s = s"
proof (cases "s = []")
  case True
  then show ?thesis by (simp add: py_strip_by_def)
next
  case False
  with assms have hd: "\<not> P (hd s)" and lst: "\<not> P (hd (rev s))"
    by (simp_all add: hd_rev)
  from False hd have "dropWhile P s = s" by (cases s) simp_all
  moreover from False lst have "dropWhile P (rev s) = rev s" by (cases "rev s") simp_all
  ultimately show ?thesis by (simp add: py_strip_by_def)
qed

lemma py_strip_by_no_P:
  "\<forall>c\<in>set s. \<not> P c \<Longrightarrow> py_strip_by P s = s"
  by (rule py_strip_by_id) (cases s, auto)

lemma py_strip_by_subset: "set (py_strip_by P s) \<subseteq> set s"
  by (auto simp: py_strip_by_def dest!: set_dropWhileD)

lemma py_endswith_single [py_str_simps]:
  "py_endswith s [c] \<longleftrightarrow> s \<noteq> [] \<and> last s = c"
  by (cases s rule: rev_cases) (auto simp: py_endswith_def)


lemma last_dropWhile: "dropWhile P xs \<noteq> [] \<Longrightarrow> last (dropWhile P xs) = last xs"
  by (induction xs) auto

lemma py_strip_by_ends:
  "py_strip_by P s = [] \<or> (\<not> P (hd (py_strip_by P s)) \<and> \<not> P (last (py_strip_by P s)))"
proof (cases "py_strip_by P s = []")
  case False
  let ?u = "dropWhile P s"
  let ?v = "dropWhile P (rev ?u)"
  have res: "py_strip_by P s = rev ?v" by (simp add: py_strip_by_def)
  with False have v: "?v \<noteq> []" by simp
  have u: "?u \<noteq> []"
  proof
    assume u0: "?u = []"
    have "?v = []" by (simp only: u0 rev.simps dropWhile.simps)
    with v show False by simp
  qed
  have "last (rev ?v) = hd ?v" using v by (simp add: last_rev)
  moreover have "\<not> P (hd ?v)" using v by (rule hd_dropWhile)
  moreover have "hd (rev ?v) = last ?v" using v by (simp add: hd_rev)
  moreover have "last ?v = last (rev ?u)" using v by (rule last_dropWhile)
  moreover have "last (rev ?u) = hd ?u" using u by (simp add: last_rev)
  moreover have "\<not> P (hd ?u)" using u by (rule hd_dropWhile)
  ultimately show ?thesis using res by simp
qed simp

lemma split_sep_chars: "x \<in> set (split_sep sep cur s) \<Longrightarrow> set x \<subseteq> set cur \<union> set s"
proof (induction sep cur s rule: split_sep.induct)
  case (1 sep cur)
  then show ?case by simp
next
  case (2 sep cur c cs)
  show ?case
  proof (cases "sep \<noteq> [] \<and> take (length sep) (c # cs) = sep")
    case True
    with "2.prems" have "x = cur \<or> x \<in> set (split_sep sep [] (drop (length sep) (c # cs)))"
      by simp
    then show ?thesis
    proof
      assume "x \<in> set (split_sep sep [] (drop (length sep) (c # cs)))"
      from "2.IH"(1) [OF True this] show ?thesis using set_drop_subset [of "length sep" "c # cs"]
        by auto
    qed auto
  next
    case False
    have "split_sep sep cur (c # cs) = split_sep sep (cur @ [c]) cs"
      by (simp only: split_sep.simps(2) if_not_P [OF False])
    with "2.prems" "2.IH"(2) [OF False] show ?thesis by auto
  qed
qed

end
