(* ===== verification/Tokenizer.thy ===== *)
theory Tokenizer
  imports PyStr
begin

text \<open>
  The tokenizer of \<open>markov.py\<close> (lines 25--40): \<open>clause_parts(token)\<close> cuts one
  whitespace-delimited chunk into words and punctuation, \<open>simplify(word)\<close> strips the
  double quotes at both ends, and \<open>tokenize(line)\<close> applies both to every chunk of
  a paragraph. The generators return lists here.
\<close>

section \<open>Definitions\<close>

text \<open>The symbols of the loop \<open>for symbol in ":;!,."\<close>, in that order.\<close>

definition punctuation :: string where
  "punctuation = '':;!,.''"

text \<open>The loop over the symbols: the first symbol the chunk ends with is split off.\<close>

fun clause_punct :: "string \<Rightarrow> char list \<Rightarrow> string list" where
  "clause_punct token [] = [token]"
| "clause_punct token (symbol # symbols) =
     (if py_endswith token [symbol] then [py_strip [symbol] token, [symbol]]
      else clause_punct token symbols)"

definition clause_parts :: "string \<Rightarrow> string list" where
  "clause_parts token =
     (if py_in ''--'' token
      then py_split (py_join '' -- '' (py_split_sep ''--'' token))
      else clause_punct token punctuation)"

definition simplify :: "string \<Rightarrow> string" where
  "simplify word = py_strip [CHR 0x22] word"

definition tokenize :: "string \<Rightarrow> string list" where
  "tokenize line = concat (map (\<lambda>token. map simplify (clause_parts token)) (py_split line))"


text \<open>The reference for the dash branch: the pieces with a \<open>--\<close> token between each two.\<close>

fun dash_parts :: "string list \<Rightarrow> string list" where
  "dash_parts [] = []"
| "dash_parts [x] = [x]"
| "dash_parts (x # y # xs) = x # ''--'' # dash_parts (y # xs)"

section \<open>Lemmas\<close>

lemma is_space_punctuation: "c \<in> set punctuation \<Longrightarrow> \<not> is_space c"
  by (auto simp: punctuation_def is_space_def py_whitespace_def)

lemma quote_not_space: "\<not> is_space (CHR 0x22)"
  by (simp add: is_space_def py_whitespace_def)

text \<open>The loop over the symbols looks only at the last character of the chunk.\<close>

lemma clause_punct_last:
  "clause_punct token symbols =
     (if token \<noteq> [] \<and> last token \<in> set symbols
      then [py_strip [last token] token, [last token]] else [token])"
  by (induction symbols) (auto simp: py_endswith_single)

lemma tokenize_append_space:
  "y = [] \<or> is_space (hd y) \<Longrightarrow> tokenize (x @ y) = tokenize x @ tokenize y"
proof (cases y)
  case (Cons c ys)
  moreover assume "y = [] \<or> is_space (hd y)"
  ultimately have sp: "is_space c" by simp
  have "tokenize ([] @ c # ys) = tokenize ys"
    using py_split_space [OF sp, of "[]" ys] by (simp add: tokenize_def py_split_def)
  with Cons sp show ?thesis
    using py_split_space [OF sp, of x ys] by (simp add: tokenize_def)
qed (simp add: tokenize_def py_split_def)

lemma space_not_punct: "is_space (CHR '' '')"
  by (simp add: is_space_def py_whitespace_def)

lemma tokenize_Cons_space: "is_space c \<Longrightarrow> tokenize (c # ys) = tokenize ys"
  using py_split_space [of c "[]" ys] by (simp add: tokenize_def py_split_def)

lemma tokenize_chunk:
  "w \<noteq> [] \<Longrightarrow> \<forall>c\<in>set w. \<not> is_space c \<Longrightarrow> tokenize w = map simplify (clause_parts w)"
  by (simp add: tokenize_def py_split_word)

lemma clause_parts_no_space:
  assumes "\<forall>c\<in>set token. \<not> is_space c" "x \<in> set (clause_parts token)"
  shows "\<forall>c\<in>set x. \<not> is_space c"
proof (cases "py_in ''--'' token")
  case True
  with assms(2) have "x \<in> set (py_split (py_join '' -- '' (py_split_sep ''--'' token)))"
    by (simp add: clause_parts_def)
  then show ?thesis using py_split_pieces by blast
next
  case False
  show ?thesis
  proof (cases "token \<noteq> [] \<and> last token \<in> set punctuation")
    case True
    with False assms(2) have "x = py_strip [last token] token \<or> x = [last token]"
      by (simp add: clause_parts_def clause_punct_last)
    then show ?thesis
    proof
      assume "x = py_strip [last token] token"
      with assms(1) py_strip_by_subset [of "\<lambda>c. c \<in> set [last token]" token] show ?thesis
        by (auto simp: py_strip_def)
    next
      assume "x = [last token]"
      with True show ?thesis by (simp add: is_space_punctuation)
    qed
  next
    case notp: False
    with False assms show ?thesis by (simp add: clause_parts_def clause_punct_last)
  qed
qed

lemma tokenize_token_chars:
  assumes "tok \<in> set (tokenize line)"
  shows "\<forall>c\<in>set tok. \<not> is_space c"
proof -
  from assms obtain chunk x where chunk: "chunk \<in> set (py_split line)"
    and x: "x \<in> set (clause_parts chunk)" and tok: "tok = simplify x"
    by (auto simp: tokenize_def)
  from chunk have "\<forall>c\<in>set chunk. \<not> is_space c" by (simp add: py_split_pieces)
  from this x have "\<forall>c\<in>set x. \<not> is_space c" by (rule clause_parts_no_space)
  with tok show ?thesis
    using py_strip_by_subset [of _ x] by (auto simp: simplify_def py_strip_def)
qed

lemma simplify_ends:
  "simplify w = [] \<or> (hd (simplify w) \<noteq> CHR 0x22 \<and> last (simplify w) \<noteq> CHR 0x22)"
  using py_strip_by_ends [of "\<lambda>c. c \<in> set [CHR 0x22]" w] by (simp add: simplify_def py_strip_def)


lemma py_split_dash_join:
  "\<forall>x\<in>set parts. \<forall>c\<in>set x. \<not> is_space c \<Longrightarrow>
     py_split (py_join '' -- '' parts) = filter (\<lambda>x. x \<noteq> []) (dash_parts parts)"
proof (induction parts rule: dash_parts.induct)
  case 1
  then show ?case by (simp add: py_split_def)
next
  case (2 x)
  then show ?case by (simp add: py_split_word)
next
  case (3 x y xs)
  have sp: "is_space (CHR '' '')" by (simp add: is_space_def py_whitespace_def)
  have dd: "\<forall>c\<in>set ''--''. \<not> is_space c" by (simp add: is_space_def py_whitespace_def)
  have "py_join '' -- '' (x # y # xs) = x @ CHR '' '' # ''--'' @ CHR '' '' # py_join '' -- '' (y # xs)"
    by simp
  then show ?case
    using "3.IH" "3.prems" py_split_space [OF sp, of x] py_split_space [OF sp, of "''--''"]
      py_split_word [OF dd] py_split_word [of x]
    by simp
qed

section \<open>Properties of the tokenizer\<close>

text \<open>
  Claim C17. Without a \<open>--\<close>, \<open>clause_parts\<close> splits off exactly the last character
  of the chunk when it is one of \<open>:;!,.\<close>, and the word part is the chunk with that
  character stripped at both ends (\<open>str.strip(symbol)\<close>, not only the trailing run);
  otherwise the chunk is kept whole.
\<close>

theorem clause_parts_punct:
  assumes "\<not> py_in ''--'' token"
  shows "clause_parts token =
    (if token \<noteq> [] \<and> last token \<in> set punctuation
     then [py_strip [last token] token, [last token]] else [token])"
  using assms by (simp add: clause_parts_def clause_punct_last)

lemma clause_parts_punct_witness:
  "\<not> py_in ''--'' ''.5.'' \<and> clause_parts ''.5.'' = [''5'', ''.''] \<and>
   \<not> py_in ''--'' ''hello.'' \<and> clause_parts ''hello.'' = [''hello'', ''.'']"
proof -
  have a: "\<not> py_in ''--'' ''.5.''" and b: "\<not> py_in ''--'' ''hello.''" by simp_all
  show ?thesis
    using a b clause_parts_punct [OF a] clause_parts_punct [OF b]
    by (simp add: punctuation_def py_strip_def py_strip_by_def)
qed

text \<open>
  Claim C18. No token contains whitespace: every chunk comes from \<open>str.split()\<close>, the
  dash branch splits again on whitespace, and stripping and splitting off a
  punctuation character add none.
\<close>

theorem tokenize_no_space:
  "\<forall>tok\<in>set (tokenize line). \<forall>c\<in>set tok. \<not> is_space c"
  using tokenize_token_chars by blast

lemma tokenize_no_space_witness:
  "tokenize ''well--actually'' = [''well'', ''--'', ''actually''] \<and>
   list_all (list_all (\<lambda>c. \<not> is_space c)) (tokenize ''well--actually'')"
proof -
  have "tokenize ''well--actually'' = [''well'', ''--'', ''actually'']"
    by (simp add: tokenize_def py_split_def is_space_def py_whitespace_def clause_parts_def
        py_split_sep_def simplify_def py_strip_def py_strip_by_def)
  with tokenize_no_space [of "''well--actually''"] show ?thesis
    by (simp add: list_all_iff)
qed

text \<open>
  Claim C19. Every token is free of double quotes at both ends (\<open>simplify\<close> strips
  them); a chunk made only of quotes gives the empty token.
\<close>

theorem tokenize_unquoted:
  "tok \<in> set (tokenize line) \<Longrightarrow> tok = [] \<or> (hd tok \<noteq> CHR 0x22 \<and> last tok \<noteq> CHR 0x22)"
  using simplify_ends by (auto simp: tokenize_def)

lemma tokenize_unquoted_witness:
  "''...'' \<in> set (tokenize ''\"...\"'') \<and> tokenize ''\"...\"'' = [''...''] \<and>
   (''...'' = [] \<or> (hd ''...'' \<noteq> CHR 0x22 \<and> last ''...'' \<noteq> CHR 0x22))"
proof -
  have t: "tokenize ''\"...\"'' = [''...'']"
    by (simp add: tokenize_def py_split_def is_space_def py_whitespace_def clause_parts_def
        punctuation_def py_endswith_def simplify_def py_strip_def py_strip_by_def)
  then have m: "''...'' \<in> set (tokenize ''\"...\"'')" by simp
  from m t tokenize_unquoted [OF m] show ?thesis by simp
qed


text \<open>
  Claim C24. The dash branch of \<open>clause_parts\<close>: a chunk containing \<open>--\<close> becomes its
  pieces between the occurrences of \<open>--\<close> with a \<open>--\<close> token between each two, the
  empty pieces dropped (\<open>" -- ".join(parts).split()\<close>). The pieces are kept whole:
  unlike the punctuation branch, this branch splits off no punctuation, so
  \<open>"a.--b."\<close> gives \<open>["a.", "--", "b."]\<close> (see the witness).
\<close>

theorem clause_parts_dash:
  assumes "py_in ''--'' token" "\<forall>c\<in>set token. \<not> is_space c"
  shows "clause_parts token = filter (\<lambda>x. x \<noteq> []) (dash_parts (py_split_sep ''--'' token))"
proof -
  have "\<forall>x\<in>set (py_split_sep ''--'' token). \<forall>c\<in>set x. \<not> is_space c"
    using assms(2) split_sep_chars [of _ "''--''" "[]" token] by (fastforce simp: py_split_sep_def)
  with assms(1) show ?thesis by (simp add: clause_parts_def py_split_dash_join)
qed

lemma clause_parts_dash_witness:
  "py_in ''--'' ''well--actually--'' \<and> list_all (\<lambda>c. \<not> is_space c) ''well--actually--'' \<and>
   clause_parts ''well--actually--'' = [''well'', ''--'', ''actually'', ''--''] \<and>
   py_in ''--'' ''a.--b.'' \<and> list_all (\<lambda>c. \<not> is_space c) ''a.--b.'' \<and>
   clause_parts ''a.--b.'' = [''a.'', ''--'', ''b.'']"
proof -
  have a: "py_in ''--'' ''well--actually--''" by simp
  have b: "\<forall>c\<in>set ''well--actually--''. \<not> is_space c"
    by (simp add: is_space_def py_whitespace_def)
  have "filter (\<lambda>x. x \<noteq> []) (dash_parts (py_split_sep ''--'' ''well--actually--'')) =
      [''well'', ''--'', ''actually'', ''--'']"
    by (simp add: py_split_sep_def)
  moreover have a2: "py_in ''--'' ''a.--b.''" by simp
  moreover have b2: "\<forall>c\<in>set ''a.--b.''. \<not> is_space c"
    by (simp add: is_space_def py_whitespace_def)
  moreover have "filter (\<lambda>x. x \<noteq> []) (dash_parts (py_split_sep ''--'' ''a.--b.'')) =
      [''a.'', ''--'', ''b.'']"
    by (simp add: py_split_sep_def)
  ultimately show ?thesis
    using a b clause_parts_dash [OF a b] clause_parts_dash [OF a2 b2] by (simp add: list_all_iff)
qed

end
