(* ===== verification/Paragraphs.thy ===== *)
theory Paragraphs
  imports PyStr
begin

text \<open>
  The paragraph splitter \<open>get_paragraphs(text)\<close> of \<open>markov.py\<close> (lines 15--23), a
  generator over the lines of the input file. The model returns the list of the
  paragraphs it yields; the buffer \<open>paragraph\<close> is the accumulator. A line is blank
  when \<open>line.strip() == ""\<close>; the lines keep their line terminators, as Python's file
  iteration gives them.
\<close>

section \<open>Definitions\<close>

fun get_paragraphs_acc :: "string \<Rightarrow> string list \<Rightarrow> string list" where
  "get_paragraphs_acc paragraph [] = []"
| "get_paragraphs_acc paragraph (line # lines) =
     (if py_strip_ws line = []
      then (if paragraph \<noteq> [] then paragraph # get_paragraphs_acc [] lines
            else get_paragraphs_acc [] lines)
      else get_paragraphs_acc (paragraph @ '' '' @ line) lines)"

definition get_paragraphs :: "string list \<Rightarrow> string list" where
  "get_paragraphs lines = get_paragraphs_acc [] lines"

text \<open>
  A reference definition: cut the lines at the blank lines (the last piece is the lines
  after the last blank line), keep the non-empty pieces that a blank line ends, and
  render each as its lines, each preceded by a space.
\<close>

definition blank_line :: "string \<Rightarrow> bool" where
  "blank_line line \<longleftrightarrow> py_strip_ws line = []"

fun blank_split :: "string list \<Rightarrow> string list list" where
  "blank_split [] = [[]]"
| "blank_split (line # lines) =
     (if blank_line line then [] # blank_split lines
      else (case blank_split lines of b # bs \<Rightarrow> (line # b) # bs | [] \<Rightarrow> [[line]]))"

definition render_paragraph :: "string list \<Rightarrow> string" where
  "render_paragraph b = concat (map (\<lambda>line. '' '' @ line) b)"

section \<open>Lemmas\<close>

lemma blank_split_not_Nil [simp]: "blank_split lines \<noteq> []"
  by (induction lines) (auto split: list.split)

lemma render_paragraph_simps [simp]:
  "render_paragraph [] = []"
  "render_paragraph (line # b) = '' '' @ line @ render_paragraph b"
  by (simp_all add: render_paragraph_def)

lemma render_paragraph_empty_iff [simp]: "render_paragraph b = [] \<longleftrightarrow> b = []"
  by (cases b) simp_all

text \<open>The loop with any buffer: the buffer is the start of the first piece.\<close>

lemma get_paragraphs_acc_blank_split:
  "get_paragraphs_acc p lines =
     (case blank_split lines of
        b # bs \<Rightarrow> (if bs = [] then []
                  else (if p @ render_paragraph b \<noteq> [] then [p @ render_paragraph b] else []) @
                       map render_paragraph (filter (\<lambda>b. b \<noteq> []) (butlast bs))))"
proof (induction lines arbitrary: p)
  case Nil
  then show ?case by simp
next
  case (Cons line lines)
  obtain b bs where bt: "blank_split lines = b # bs"
    using blank_split_not_Nil by (cases "blank_split lines") auto
  show ?case
  proof (cases "blank_line line")
    case True
    then show ?thesis
      using Cons.IH [of "[]"] by (simp add: bt blank_line_def)
  next
    case False
    then show ?thesis
      using Cons.IH [of "p @ '' '' @ line"] by (simp add: bt blank_line_def)
  qed
qed

lemma blank_split_snoc:
  "\<not> blank_line l \<Longrightarrow>
     blank_split (lines @ [l]) = butlast (blank_split lines) @ [last (blank_split lines) @ [l]]"
proof (induction lines)
  case Nil
  then show ?case by simp
next
  case (Cons line lines)
  obtain b bs where bt: "blank_split lines = b # bs"
    using blank_split_not_Nil by (cases "blank_split lines") auto
  show ?case
    using Cons by (cases bs) (simp_all add: bt)
qed

section \<open>Properties\<close>

text \<open>
  Claim C12. The splitter yields exactly the non-empty runs of non-blank lines that a
  blank line terminates, each rendered as its lines joined with a leading space.
\<close>

theorem get_paragraphs_reference:
  "get_paragraphs lines =
     map render_paragraph (filter (\<lambda>b. b \<noteq> []) (butlast (blank_split lines)))"
proof -
  obtain b bs where bt: "blank_split lines = b # bs"
    using blank_split_not_Nil by (cases "blank_split lines") auto
  show ?thesis
    unfolding get_paragraphs_def get_paragraphs_acc_blank_split [of "[]"] bt
    by (cases "bs = []") simp_all
qed

text \<open>
  Claim C13. A last paragraph that no blank line follows is never yielded: appending a
  non-blank line to the input does not change the paragraphs (\<open>markov.py\<close> has no
  flush after its loop).
\<close>

theorem get_paragraphs_drops_unterminated:
  assumes "\<not> blank_line l"
  shows "get_paragraphs (lines @ [l]) = get_paragraphs lines"
proof -
  obtain b bs where bt: "blank_split lines = b # bs"
    using blank_split_not_Nil by (cases "blank_split lines") auto
  have snoc: "blank_split (lines @ [l]) =
      (if bs = [] then [b @ [l]] else b # butlast bs @ [last bs @ [l]])"
    using blank_split_snoc [OF assms, of lines] by (simp add: bt)
  show ?thesis
    unfolding get_paragraphs_def get_paragraphs_acc_blank_split [of "[]"] bt snoc
    by (cases "bs = []") simp_all
qed

lemma get_paragraphs_drops_unterminated_witness:
  "\<not> blank_line ''b'' \<and>
   get_paragraphs ([''a'', '' '', ''c''] @ [''b'']) = get_paragraphs [''a'', '' '', ''c''] \<and>
   get_paragraphs [''a'', '' '', ''c''] = ['' a'']"
proof -
  have nb: "\<not> blank_line ''b''"
    by (simp add: blank_line_def py_strip_ws_def py_strip_by_def is_space_def py_whitespace_def)
  have "get_paragraphs [''a'', '' '', ''c''] = ['' a'']"
    by (simp add: get_paragraphs_def py_strip_ws_def py_strip_by_def is_space_def
        py_whitespace_def)
  with nb get_paragraphs_drops_unterminated [OF nb, of "[''a'', '' '', ''c'']"] show ?thesis
    by simp
qed

end
