(* ===== verification/Chain.thy ===== *)
theory Chain
  imports Tokenizer Paragraphs
begin

text \<open>
  The model of \<open>class MarkovChain\<close> (\<open>markov.py\<close> lines 51--63) and its write path:
  the record of its two attributes, the constructor, the counting update
  \<open>self.table[tuple(prefix)][word] += 1\<close>, the sliding of the prefix, and
  \<open>process_input\<close>. The abstract view of the table is the count function
  \<open>count_of\<close>; the abstract view of an input is the multiset of its n-grams.
\<close>

section \<open>State and write path\<close>

record markov_chain =
  order :: nat
  table :: table

definition init :: "nat \<Rightarrow> markov_chain" where
  "init k = \<lparr>order = k, table = []\<rparr>"

text \<open>\<open>[None] * self.order\<close>\<close>

definition start_prefix :: "nat \<Rightarrow> prefix" where
  "start_prefix k = replicate k None"

text \<open>\<open>prefix[1:] + [word]\<close>\<close>

definition slide :: "prefix \<Rightarrow> token \<Rightarrow> prefix" where
  "slide prefix word = drop 1 prefix @ [Some word]"

text \<open>\<open>self.table[tuple(prefix)][word] += 1\<close> on the two \<open>defaultdict\<close>s.\<close>

definition table_incr :: "table \<Rightarrow> prefix \<Rightarrow> token \<Rightarrow> table" where
  "table_incr t prefix word =
     AList.update_with_aux [] prefix (AList.update_with_aux 0 word (\<lambda>c. c + 1)) t"

text \<open>The inner loop of \<open>process_input\<close> over the tokens of one paragraph.\<close>

fun process_tokens :: "table \<Rightarrow> prefix \<Rightarrow> token list \<Rightarrow> table" where
  "process_tokens t prefix [] = t"
| "process_tokens t prefix (word # words) =
     process_tokens (table_incr t prefix word) (slide prefix word) words"

definition process_paragraph :: "nat \<Rightarrow> string \<Rightarrow> table \<Rightarrow> table" where
  "process_paragraph k paragraph t = process_tokens t (start_prefix k) (tokenize paragraph)"

text \<open>
  \<open>process_input(self, source)\<close> iterates over \<open>get_paragraphs(text)\<close>: the lines it
  reads are those of the module-level variable \<open>text\<close>, not of its parameter
  \<open>source\<close>. At the only call sites (lines 84 and 87) the two are the same file
  object, so the model takes the lines read as its argument.
\<close>

definition process_input :: "markov_chain \<Rightarrow> string list \<Rightarrow> markov_chain" where
  "process_input mc lines =
     mc\<lparr>table := fold (process_paragraph (order mc)) (get_paragraphs lines) (table mc)\<rparr>"

section \<open>Abstract view\<close>

text \<open>\<open>self.table[tuple(prefix)]\<close> read as a value, and one count of it.\<close>

definition succs :: "table \<Rightarrow> prefix \<Rightarrow> counts" where
  "succs t prefix = get_default [] t prefix"

definition count_of :: "table \<Rightarrow> prefix \<Rightarrow> token \<Rightarrow> int" where
  "count_of t prefix word = get_default 0 (succs t prefix) word"

text \<open>The n-grams (context, next token) of a token sequence, as the loop visits them.\<close>

fun ngrams :: "prefix \<Rightarrow> token list \<Rightarrow> (prefix \<times> token) list" where
  "ngrams prefix [] = []"
| "ngrams prefix (word # words) = (prefix, word) # ngrams (slide prefix word) words"

definition input_ngrams :: "nat \<Rightarrow> string list \<Rightarrow> (prefix \<times> token) list" where
  "input_ngrams k lines =
     concat (map (\<lambda>p. ngrams (start_prefix k) (tokenize p)) (get_paragraphs lines))"

text \<open>
  Well-formedness of the table: the keys of both levels are distinct (they are the
  keys of Python dicts) and every stored count is positive.
\<close>

definition wf_counts :: "counts \<Rightarrow> bool" where
  "wf_counts cs \<longleftrightarrow> distinct (keys cs) \<and> (\<forall>c\<in>set cs. 0 < snd c)"

definition wf_table :: "table \<Rightarrow> bool" where
  "wf_table t \<longleftrightarrow> distinct (keys t) \<and> (\<forall>e\<in>set t. wf_counts (snd e))"

text \<open>Every key of the table is a tuple of \<open>k\<close> entries.\<close>

definition keys_of_length :: "nat \<Rightarrow> table \<Rightarrow> bool" where
  "keys_of_length k t \<longleftrightarrow> (\<forall>p\<in>set (keys t). length p = k)"

text \<open>
  No stored token contains whitespace (the tokens come from \<open>tokenize\<close>, which
  splits at whitespace).
\<close>

definition no_space_tokens :: "table \<Rightarrow> bool" where
  "no_space_tokens t \<longleftrightarrow>
     list_all (\<lambda>e. list_all (\<lambda>x. list_all (\<lambda>c. \<not> is_space c) (fst x)) (snd e)) t"

section \<open>Lemmas\<close>

lemma succs_table_incr [table_simps]:
  "succs (table_incr t p w) q =
     (if q = p then AList.update_with_aux 0 w (\<lambda>c. c + 1) (succs t p) else succs t q)"
  by (simp add: succs_def table_incr_def)

lemma count_of_table_incr [table_simps]:
  "count_of (table_incr t p w) q v = count_of t q v + (if (q, v) = (p, w) then 1 else 0)"
  by (simp add: count_of_def succs_table_incr)

lemma count_of_process_tokens:
  "count_of (process_tokens t p ws) q v = count_of t q v + int (count (mset (ngrams p ws)) (q, v))"
  by (induction t p ws rule: process_tokens.induct) (simp_all add: count_of_table_incr)

lemma count_of_fold_process_paragraph:
  "count_of (fold (process_paragraph k) ps t) q v =
     count_of t q v +
     int (count (mset (concat (map (\<lambda>p. ngrams (start_prefix k) (tokenize p)) ps))) (q, v))"
  by (induction ps arbitrary: t) (simp_all add: process_paragraph_def count_of_process_tokens)

lemma wf_counts_get_default_nonneg: "wf_counts cs \<Longrightarrow> 0 \<le> get_default 0 cs w"
  by (auto simp: wf_counts_def split: option.split dest!: map_of_SomeD)

lemma wf_counts_incr:
  assumes "wf_counts cs"
  shows "wf_counts (AList.update_with_aux 0 w (\<lambda>c. c + 1) cs)"
proof -
  from assms have d: "distinct (keys cs)" by (simp add: wf_counts_def)
  have "0 < get_default 0 cs w + 1"
    using wf_counts_get_default_nonneg [OF assms, of w] by simp
  with assms show ?thesis
    by (auto simp: wf_counts_def AList.set_update_with_aux [OF d])
qed

lemma wf_table_succs:
  assumes "wf_table t"
  shows "wf_counts (succs t p)"
proof (cases "map_of t p")
  case None
  then show ?thesis by (simp add: succs_def wf_counts_def)
next
  case (Some cs)
  then have mem: "(p, cs) \<in> set t" by (rule map_of_SomeD)
  from assms have "\<forall>e\<in>set t. wf_counts (snd e)" by (simp add: wf_table_def)
  from this mem have "wf_counts (snd (p, cs))" by (rule bspec)
  with Some show ?thesis by (simp add: succs_def)
qed

lemma wf_table_update:
  assumes "wf_table t" "wf_counts (f (succs t p))"
  shows "wf_table (AList.update_with_aux [] p f t)"
proof -
  from assms(1) have d: "distinct (keys t)" by (simp add: wf_table_def)
  from assms show ?thesis
    by (auto simp: wf_table_def AList.set_update_with_aux [OF d] succs_def)
qed

lemma wf_table_incr: "wf_table t \<Longrightarrow> wf_table (table_incr t p w)"
  unfolding table_incr_def by (rule wf_table_update) (simp_all add: wf_counts_incr wf_table_succs)

lemma wf_table_process_tokens: "wf_table t \<Longrightarrow> wf_table (process_tokens t p ws)"
  by (induction t p ws rule: process_tokens.induct) (simp_all add: wf_table_incr)

lemma wf_table_fold_process_paragraph: "wf_table t \<Longrightarrow> wf_table (fold (process_paragraph k) ps t)"
  by (induction ps arbitrary: t) (simp_all add: process_paragraph_def wf_table_process_tokens)

lemma length_slide: "1 \<le> length p \<Longrightarrow> length (slide p w) = length p"
  by (simp add: slide_def)

lemma keys_of_length_incr:
  "keys_of_length k t \<Longrightarrow> length p = k \<Longrightarrow> keys_of_length k (table_incr t p w)"
  unfolding keys_of_length_def table_incr_def keys_update_with_aux by simp

lemma keys_of_length_process_tokens:
  "keys_of_length k t \<Longrightarrow> length p = k \<Longrightarrow> 1 \<le> k \<Longrightarrow> keys_of_length k (process_tokens t p ws)"
  by (induction t p ws rule: process_tokens.induct) (simp_all add: keys_of_length_incr length_slide)

lemma keys_of_length_fold_process_paragraph:
  "keys_of_length k t \<Longrightarrow> 1 \<le> k \<Longrightarrow> keys_of_length k (fold (process_paragraph k) ps t)"
  by (induction ps arbitrary: t)
    (simp_all add: process_paragraph_def keys_of_length_process_tokens start_prefix_def)

lemma no_space_tokens_iff:
  "no_space_tokens t \<longleftrightarrow> (\<forall>cs\<in>snd ` set t. \<forall>x\<in>set cs. \<forall>c\<in>set (fst x). \<not> is_space c)"
  by (auto simp: no_space_tokens_def list_all_iff)

lemma no_space_tokens_succs:
  assumes "no_space_tokens t" "x \<in> set (succs t p)" "c \<in> set (fst x)"
  shows "\<not> is_space c"
proof (cases "map_of t p")
  case None
  with assms(2) show ?thesis by (simp add: succs_def)
next
  case (Some cs)
  then have "cs \<in> snd ` set t" by (rule map_of_SomeD_values)
  with Some assms show ?thesis by (auto simp: succs_def no_space_tokens_iff)
qed

lemma no_space_tokens_update:
  assumes "no_space_tokens t"
    and "\<And>x c. x \<in> set (f (succs t p)) \<Longrightarrow> c \<in> set (fst x) \<Longrightarrow> \<not> is_space c"
  shows "no_space_tokens (AList.update_with_aux [] p f t)"
  unfolding no_space_tokens_iff
proof (intro ballI)
  fix cs x c
  assume cs: "cs \<in> snd ` set (AList.update_with_aux [] p f t)" and x: "x \<in> set cs"
    and c: "c \<in> set (fst x)"
  from values_update_with_aux [OF cs] show "\<not> is_space c"
  proof
    assume "cs \<in> snd ` set t"
    with assms(1) x c show ?thesis by (auto simp: no_space_tokens_iff)
  next
    assume "cs = f (get_default [] t p)"
    with assms(2) x c show ?thesis by (simp add: succs_def)
  qed
qed

lemma no_space_tokens_incr:
  assumes "no_space_tokens t" "\<forall>c\<in>set w. \<not> is_space c"
  shows "no_space_tokens (table_incr t p w)"
  unfolding table_incr_def
proof (rule no_space_tokens_update [OF assms(1)])
  fix x c
  assume x: "x \<in> set (AList.update_with_aux 0 w (\<lambda>c. c + 1) (succs t p))" and c: "c \<in> set (fst x)"
  have "fst x = w \<or> fst x \<in> fst ` set (succs t p)"
    using x keys_update_with_aux [of 0 w "\<lambda>c. c + 1" "succs t p"] by auto
  then show "\<not> is_space c"
  proof
    assume "fst x = w"
    with assms(2) c show ?thesis by simp
  next
    assume "fst x \<in> fst ` set (succs t p)"
    then obtain y where "y \<in> set (succs t p)" "fst y = fst x" by force
    with no_space_tokens_succs [OF assms(1)] c show ?thesis by metis
  qed
qed

lemma no_space_tokens_process_tokens:
  "no_space_tokens t \<Longrightarrow> \<forall>w\<in>set ws. \<forall>c\<in>set w. \<not> is_space c \<Longrightarrow>
     no_space_tokens (process_tokens t p ws)"
  by (induction t p ws rule: process_tokens.induct) (simp_all add: no_space_tokens_incr)

lemma no_space_tokens_fold_process_paragraph:
  "no_space_tokens t \<Longrightarrow> no_space_tokens (fold (process_paragraph k) ps t)"
  by (induction ps arbitrary: t)
    (simp_all add: process_paragraph_def no_space_tokens_process_tokens tokenize_token_chars)

lemma no_space_tokens_process_input:
  "no_space_tokens (table mc) \<Longrightarrow> no_space_tokens (table (process_input mc lines))"
  by (simp add: process_input_def no_space_tokens_fold_process_paragraph)

lemma no_space_tokens_init [simp]: "no_space_tokens (table (init k))"
  by (simp add: init_def no_space_tokens_def)

lemma count_of_Nil [simp]: "count_of [] p w = 0"
  by (simp add: count_of_def succs_def)

lemma order_process_input [simp]: "order (process_input mc lines) = order mc"
  by (simp add: process_input_def)

lemma count_of_process_input:
  "count_of (table (process_input mc lines)) q v =
     count_of (table mc) q v + int (count (mset (input_ngrams (order mc) lines)) (q, v))"
  by (simp add: process_input_def input_ngrams_def count_of_fold_process_paragraph)

lemma ngrams_Nil_iff [simp]: "ngrams p ws = [] \<longleftrightarrow> ws = []"
  by (cases ws) simp_all

lemma process_input_no_ngrams:
  "input_ngrams (order mc) lines = [] \<Longrightarrow> table (process_input mc lines) = table mc"
proof -
  have "concat (map (\<lambda>p. ngrams (start_prefix k) (tokenize p)) ps) = [] \<Longrightarrow>
      fold (process_paragraph k) ps t = t" for k ps t
    by (induction ps) (simp_all add: process_paragraph_def)
  then show "input_ngrams (order mc) lines = [] \<Longrightarrow> table (process_input mc lines) = table mc"
    by (simp add: input_ngrams_def process_input_def)
qed

lemma input_ngrams_start:
  "input_ngrams k lines \<noteq> [] \<Longrightarrow> \<exists>w. (start_prefix k, w) \<in> set (input_ngrams k lines)"
proof -
  have "concat (map (\<lambda>p. ngrams (start_prefix k) (tokenize p)) ps) \<noteq> [] \<Longrightarrow>
      \<exists>w. (start_prefix k, w) \<in> set (concat (map (\<lambda>p. ngrams (start_prefix k) (tokenize p)) ps))"
    for ps
  proof (induction ps)
    case Nil
    then show ?case by simp
  next
    case (Cons p ps)
    show ?case
    proof (cases "tokenize p")
      case Nil
      with Cons show ?thesis by simp
    next
      case (Cons w ws)
      then show ?thesis by auto
    qed
  qed
  then show "input_ngrams k lines \<noteq> [] \<Longrightarrow> \<exists>w. (start_prefix k, w) \<in> set (input_ngrams k lines)"
    by (simp add: input_ngrams_def)
qed

lemma count_of_pos_succs: "0 < count_of t p w \<Longrightarrow> succs t p \<noteq> []"
  by (auto simp: count_of_def)

lemma ngrams_window:
  "length p = k \<Longrightarrow> 1 \<le> k \<Longrightarrow>
     ngrams p ws = map (\<lambda>i. (take k (drop i (p @ map Some ws)), ws ! i)) [0..<length ws]"
proof (induction ws arbitrary: p)
  case Nil
  then show ?case by simp
next
  case (Cons w ws)
  have len: "length (slide p w) = k" using Cons.prems by (simp add: slide_def)
  have drop: "drop (Suc i) (p @ map Some (w # ws)) = drop i (slide p w @ map Some ws)" for i
    using Cons.prems by (cases p) (simp_all add: slide_def)
  have tk: "take k (p @ map Some (w # ws)) = p" using Cons.prems(1) by simp
  have "map (\<lambda>i. (take k (drop i (p @ map Some (w # ws))), (w # ws) ! i)) [0..<length (w # ws)] =
      (take k (p @ map Some (w # ws)), w) #
        map (\<lambda>i. (take k (drop (Suc i) (p @ map Some (w # ws))), ws ! i)) [0..<length ws]"
    by (simp only: length_Cons map_upt_Suc drop_0 nth_Cons_0 nth_Cons_Suc)
  also have "\<dots> = (p, w) # ngrams (slide p w) ws"
    by (simp only: tk drop Cons.IH [OF len Cons.prems(2)])
  finally show ?case by simp
qed

section \<open>Properties of ingestion\<close>

text \<open>
  Claim C5. Refinement of ingestion: after \<open>process_input\<close>, every count of the table
  is the count before plus the number of occurrences of that (context, token) pair
  among the n-grams of the input's paragraphs. The table is an implementation of the
  multiset of observed n-grams.
\<close>

theorem process_input_refines:
  "count_of (table (process_input mc lines)) q v =
     count_of (table mc) q v + int (count (mset (input_ngrams (order mc) lines)) (q, v))"
  by (simp add: process_input_def input_ngrams_def count_of_fold_process_paragraph)

text \<open>
  Claim C6. Count accumulation: ingesting the same text twice into a new model gives
  every (context, token) pair twice the count that one ingestion gives.
\<close>

theorem process_input_twice:
  "count_of (table (process_input (process_input (init k) lines) lines)) q v =
     2 * count_of (table (process_input (init k) lines)) q v"
  by (simp add: count_of_process_input init_def)

text \<open>
  Claim C7. Ingestion commutes on the counts: two texts ingested in either order give
  the same count for every (context, token) pair.
\<close>

theorem process_input_commute:
  "count_of (table (process_input (process_input mc a) b)) q v =
     count_of (table (process_input (process_input mc b) a)) q v"
  by (simp add: count_of_process_input)

text \<open>
  Claim C8. Ingestion keeps the table well formed: distinct keys at both levels and
  positive counts.
\<close>

theorem process_input_wf_table:
  "wf_table (table mc) \<Longrightarrow> wf_table (table (process_input mc lines))"
  by (simp add: process_input_def wf_table_fold_process_paragraph)

lemma process_input_wf_table_witness:
  "wf_table (table (init 3)) \<and> wf_table (table (process_input (init 3) [''a b.'', '''']))"
proof -
  have wf: "wf_table (table (init 3))" by (simp add: init_def wf_table_def)
  from wf process_input_wf_table [OF wf, of "[''a b.'', '''']"] show ?thesis by simp
qed

text \<open>
  Claim C9. For an order of at least one, every key of the table is a tuple of exactly
  \<open>order\<close> entries, and ingestion keeps it so.
\<close>

theorem process_input_keys_of_length:
  "1 \<le> order mc \<Longrightarrow> keys_of_length (order mc) (table mc) \<Longrightarrow>
     keys_of_length (order mc) (table (process_input mc lines))"
  by (simp add: process_input_def keys_of_length_fold_process_paragraph)

lemma process_input_keys_of_length_witness:
  "1 \<le> order (init 2) \<and> keys_of_length (order (init 2)) (table (init 2)) \<and>
   keys_of_length 2 (table (process_input (init 2) [''a b.'', '''']))"
proof -
  have o: "1 \<le> order (init 2)" and k: "keys_of_length (order (init 2)) (table (init 2))"
    by (simp_all add: init_def keys_of_length_def)
  from o k process_input_keys_of_length [OF o k, of "[''a b.'', '''']"] show ?thesis
    by (simp add: init_def)
qed

text \<open>
  With order 0 the premise fails and so does the conclusion: the first token of a
  paragraph is keyed by the empty tuple and every later one by a one-tuple, since
  \<open>prefix[1:] + [word]\<close> of the empty list is a list of one element.
\<close>

lemma process_input_order_zero:
  "table (process_input (init 0) [''a b'', '''']) =
     [([], [(''a'', 1)]), ([Some ''a''], [(''b'', 1)])]"
  by (simp add: process_input_def init_def get_paragraphs_def py_strip_ws_def py_strip_by_def
      is_space_def py_whitespace_def process_paragraph_def start_prefix_def tokenize_def
      py_split_def clause_parts_def punctuation_def py_endswith_def simplify_def py_strip_def
      table_incr_def slide_def)


lemma ngrams_single_context:
  "ngrams [Some a] ws = map (\<lambda>(x, y). ([Some x], y)) (zip (a # ws) ws)"
  by (induction ws arbitrary: a) (simp_all add: slide_def)

text \<open>
  Claim C22. Paragraph isolation: for an order of at least one, the n-grams counted
  for a text are, paragraph by paragraph, the token at each position with the window of
  the \<open>order\<close> entries before it in the paragraph padded by \<open>order\<close> start markers.
  No context reaches into another paragraph.
\<close>

theorem paragraph_isolation:
  "1 \<le> k \<Longrightarrow>
   input_ngrams k lines =
     concat (map (\<lambda>par. map (\<lambda>i. (take k (drop i (start_prefix k @ map Some (tokenize par))),
                                 tokenize par ! i)) [0..<length (tokenize par)])
       (get_paragraphs lines))"
  by (simp add: input_ngrams_def ngrams_window start_prefix_def)

lemma paragraph_isolation_witness:
  "1 \<le> (1::nat) \<and>
   input_ngrams 1 [''a b'', '''', ''c''] = [([None], ''a''), ([Some ''a''], ''b'')]"
proof -
  have k: "1 \<le> (1::nat)" by simp
  have p: "get_paragraphs [''a b'', '''', ''c''] = ['' a b'']"
    by (simp add: get_paragraphs_def py_strip_ws_def py_strip_by_def is_space_def
        py_whitespace_def)
  have t: "tokenize '' a b'' = [''a'', ''b'']"
    by (simp add: tokenize_def py_split_def is_space_def py_whitespace_def clause_parts_def
        punctuation_def py_endswith_def simplify_def py_strip_def py_strip_by_def)
  show ?thesis
    using k paragraph_isolation [OF k, of "[''a b'', '''', ''c'']"] p t
    by (simp add: start_prefix_def)
qed


lemma input_ngrams_order_zero:
  "input_ngrams 0 lines =
     concat (map (\<lambda>p. case tokenize p of
                          [] \<Rightarrow> []
                        | w # ws \<Rightarrow> ([], w) # map (\<lambda>(x, y). ([Some x], y)) (zip (w # ws) ws))
       (get_paragraphs lines))"
proof -
  have "ngrams (start_prefix 0) ws =
      (case ws of [] \<Rightarrow> [] | w # ws' \<Rightarrow> ([], w) # map (\<lambda>(x, y). ([Some x], y)) (zip (w # ws') ws'))"
    for ws
    by (cases ws) (simp_all add: start_prefix_def slide_def ngrams_single_context)
  then show ?thesis by (simp add: input_ngrams_def)
qed

text \<open>
  Claim C32. What order 0 counts: the constructor accepts \<open>order = 0\<close>, and then each
  paragraph contributes its first token under the empty context and every later token
  under the one-token context of the token before it (\<open>prefix[1:] + [word]\<close> of the
  empty list has one element), so the model is a bigram model with a separate start
  distribution, not the unigram model an order of 0 suggests.
\<close>

theorem process_input_order_zero_counts:
  "count_of (table (process_input (init 0) lines)) q v =
     int (count (mset (concat (map (\<lambda>p. case tokenize p of
                          [] \<Rightarrow> []
                        | w # ws \<Rightarrow> ([], w) # map (\<lambda>(x, y). ([Some x], y)) (zip (w # ws) ws))
       (get_paragraphs lines)))) (q, v))"
  by (simp add: count_of_process_input input_ngrams_order_zero init_def)

end
