(* ===== verification/Sampler.thy ===== *)
theory Sampler
  imports Prelude
begin

text \<open>
  The weighted sampler \<open>choice(weighted_set)\<close> of \<open>markov.py\<close> (lines 4--13). The
  total weight is computed; a non-positive total returns \<open>None\<close> without drawing;
  otherwise one number is drawn with \<open>randrange(total)\<close> and the items are scanned in
  their iteration order, subtracting each weight until the running value is negative.
  The scan is \<open>choice_scan\<close>; the draw is a call of the random source, threaded as
  a state.
\<close>

section \<open>Definitions\<close>

definition total_weight :: "('a \<times> int) list \<Rightarrow> int" where
  "total_weight ws = sum_list (map snd ws)"

fun choice_scan :: "('a \<times> int) list \<Rightarrow> int \<Rightarrow> 'a option" where
  "choice_scan [] c = None"
| "choice_scan ((item, weight) # ws) c =
     (let c' = c - weight in if c' < 0 then Some item else choice_scan ws c')"

definition choice :: "'r randrange \<Rightarrow> ('a \<times> int) list \<Rightarrow> 'r \<Rightarrow> 'a option \<times> 'r" where
  "choice randrange ws r =
     (let total = total_weight ws in
      if total \<le> 0 then (None, r)
      else (case randrange r total of (c, r') \<Rightarrow> (choice_scan ws c, r')))"

text \<open>The weight of one item: the sum of the weights of its entries.\<close>

definition weight_of :: "'a \<Rightarrow> ('a \<times> int) list \<Rightarrow> int" where
  "weight_of x ws = sum_list (map snd (filter (\<lambda>p. fst p = x) ws))"

definition nonneg_weights :: "('a \<times> int) list \<Rightarrow> bool" where
  "nonneg_weights ws \<longleftrightarrow> list_all (\<lambda>p. 0 \<le> snd p) ws"

section \<open>The scan\<close>

lemma total_weight_simps [simp]:
  "total_weight [] = 0"
  "total_weight (p # ws) = snd p + total_weight ws"
  by (simp_all add: total_weight_def)

lemma nonneg_weights_simps [simp]:
  "nonneg_weights []"
  "nonneg_weights (p # ws) \<longleftrightarrow> 0 \<le> snd p \<and> nonneg_weights ws"
  by (simp_all add: nonneg_weights_def)

lemma total_weight_nonneg: "nonneg_weights ws \<Longrightarrow> 0 \<le> total_weight ws"
  by (induction ws) auto

lemma choice_scan_mem: "choice_scan ws c = Some x \<Longrightarrow> x \<in> fst ` set ws"
  by (induction ws c rule: choice_scan.induct) (auto simp: Let_def split: if_splits)

text \<open>Items of weight zero are never chosen by a draw in range.\<close>

lemma choice_scan_positive:
  "choice_scan ws c = Some x \<Longrightarrow> 0 \<le> c \<Longrightarrow> nonneg_weights ws \<Longrightarrow>
     \<exists>w. (x, w) \<in> set ws \<and> 0 < w"
  by (induction ws c rule: choice_scan.induct) (auto simp: Let_def split: if_splits)

text \<open>A draw in \<open>[0, total)\<close> always selects an item.\<close>

lemma choice_scan_total:
  "nonneg_weights ws \<Longrightarrow> 0 \<le> c \<Longrightarrow> c < total_weight ws \<Longrightarrow> \<exists>x. choice_scan ws c = Some x"
  by (induction ws c rule: choice_scan.induct) (auto simp: Let_def)

section \<open>Correctness of the sampler\<close>

text \<open>
  The counting argument behind the sampler: of the draws in \<open>[0, total)\<close>, exactly
  the weight of an item make the scan return it.
\<close>

lemma choice_scan_card:
  assumes "nonneg_weights ws"
  shows "int (card {c. 0 \<le> c \<and> c < total_weight ws \<and> choice_scan ws c = Some x}) =
    weight_of x ws"
  using assms
proof (induction ws)
  case Nil
  then show ?case by (simp add: weight_of_def)
next
  case (Cons p ws)
  obtain y w where p: "p = (y, w)" by (cases p)
  with Cons.prems have w: "0 \<le> w" and nn: "nonneg_weights ws" by simp_all
  let ?t = "total_weight ws"
  let ?A = "{c::int. 0 \<le> c \<and> c < w \<and> y = x}"
  let ?B = "{d. 0 \<le> d \<and> d < ?t \<and> choice_scan ws d = Some x}"
  let ?C = "{c. w \<le> c \<and> c < w + ?t \<and> choice_scan ws (c - w) = Some x}"
  have split: "{c. 0 \<le> c \<and> c < total_weight (p # ws) \<and> choice_scan (p # ws) c = Some x} =
      ?A \<union> ?C"
    using w total_weight_nonneg [OF nn] by (auto simp: p Let_def)
  have "{c::int. 0 \<le> c \<and> c < w} = {0..<w}" by auto
  then have A: "int (card ?A) = (if y = x then w else 0)"
    using w by simp
  have disj: "?A \<inter> ?C = {}" by auto
  have fin1: "finite ?A" using finite_int_range [of w "\<lambda>_. y = x"] by simp
  have fin2: "finite ?C" by (rule finite_subset [of _ "{w..<w + ?t}"]) auto
  have "card {c. 0 \<le> c \<and> c < total_weight (p # ws) \<and> choice_scan (p # ws) c = Some x} =
      card ?A + card ?B"
    unfolding split card_Un_disjoint [OF fin1 fin2 disj]
    using card_shift_image [of w ?t "\<lambda>d. choice_scan ws d = Some x"] by simp
  then show ?case
    using Cons.IH [OF nn] A by (simp add: weight_of_def p)
qed

lemma choice_scan_hit:
  assumes "nonneg_weights ws" "0 < weight_of x ws"
  shows "\<exists>c. 0 \<le> c \<and> c < total_weight ws \<and> choice_scan ws c = Some x"
proof -
  have "card {c. 0 \<le> c \<and> c < total_weight ws \<and> choice_scan ws c = Some x} \<noteq> 0"
    using choice_scan_card [OF assms(1), of x] assms(2) by linarith
  then have "{c. 0 \<le> c \<and> c < total_weight ws \<and> choice_scan ws c = Some x} \<noteq> {}"
    by (metis card.empty)
  then show ?thesis by blast
qed

lemma choice_draw:
  "0 < total_weight ws \<Longrightarrow> choice (\<lambda>r n. (c, r)) ws r = (choice_scan ws c, r)"
  by (simp add: choice_def)

text \<open>
  Claim C10. Sampler correctness, exactly: for non-negative weights, of the
  \<open>total\<close> equally likely results of \<open>randrange(total)\<close>, exactly the weight of an
  item (the sum of the weights of its entries) make \<open>choice\<close> return that item. So
  \<open>choice\<close> returns each item with probability proportional to its weight.
\<close>

theorem choice_distribution:
  assumes "nonneg_weights ws"
  shows "int (card {c. 0 \<le> c \<and> c < total_weight ws \<and>
      fst (choice (\<lambda>r n. (c, r)) ws r) = Some x}) = weight_of x ws"
proof -
  have "{c. 0 \<le> c \<and> c < total_weight ws \<and> fst (choice (\<lambda>r n. (c, r)) ws r) = Some x} =
      {c. 0 \<le> c \<and> c < total_weight ws \<and> choice_scan ws c = Some x}"
    by (auto simp: choice_draw)
  then show ?thesis using choice_scan_card [OF assms, of x] by simp
qed

lemma choice_distribution_witness:
  "nonneg_weights [(''a'', 1), (''b'', 3::int)] \<and>
   int (card {c. 0 \<le> c \<and> c < total_weight [(''a'', 1), (''b'', 3::int)] \<and>
     fst (choice (\<lambda>r n. (c, r)) [(''a'', 1), (''b'', 3)] (0::nat)) = Some ''b''}) = 3"
proof -
  have nn: "nonneg_weights [(''a'', 1), (''b'', 3::int)]" by simp
  have w3: "weight_of ''b'' [(''a'', 1), (''b'', 3::int)] = 3" by (simp add: weight_of_def)
  show ?thesis
    unfolding choice_distribution [OF nn, of "0::nat" "''b''"] w3 using nn by simp
qed

text \<open>The behaviour of \<open>choice\<close> on each branch, for use by the generator.\<close>

lemma choice_nonpos: "total_weight ws \<le> 0 \<Longrightarrow> choice rr ws r = (None, r)"
  by (simp add: choice_def)

lemma choice_pos:
  assumes "randrange_ok rr" "nonneg_weights ws" "0 < total_weight ws"
  shows "\<exists>x w r'. choice rr ws r = (Some x, r') \<and> (x, w) \<in> set ws \<and> 0 < w"
proof -
  obtain c r' where rr: "rr r (total_weight ws) = (c, r')" by (rule prod.exhaust)
  have c: "0 \<le> c" "c < total_weight ws" using randrange_okD [OF assms(1) assms(3) rr] .
  obtain x where x: "choice_scan ws c = Some x"
    using choice_scan_total [OF assms(2) c] by (elim exE)
  obtain w where "(x, w) \<in> set ws" "0 < w"
    using choice_scan_positive [OF x c(1) assms(2)] by (elim exE conjE)
  moreover have "choice rr ws r = (Some x, r')"
    using x rr assms(3) by (simp add: choice_def)
  ultimately show ?thesis by blast
qed

lemma choice_Some_mem:
  assumes "choice rr ws r = (Some x, r')"
  shows "x \<in> fst ` set ws"
proof (cases "total_weight ws \<le> 0")
  case True
  with assms show ?thesis by (simp add: choice_def)
next
  case False
  obtain c r'' where "rr r (total_weight ws) = (c, r'')" by (rule prod.exhaust)
  with False assms have "choice_scan ws c = Some x" by (simp add: choice_def)
  then show ?thesis by (rule choice_scan_mem)
qed

text \<open>
  Claim C11. The dead-end signal: with a well-behaved random source and non-negative
  weights, \<open>choice\<close> returns \<open>None\<close> exactly when the total weight is not positive,
  and then draws nothing (the generator state is returned unchanged).
\<close>

theorem choice_None_iff:
  assumes "randrange_ok rr" "nonneg_weights ws"
  shows "fst (choice rr ws r) = None \<longleftrightarrow> total_weight ws \<le> 0"
proof
  assume none: "fst (choice rr ws r) = None"
  show "total_weight ws \<le> 0"
  proof (rule ccontr)
    assume "\<not> total_weight ws \<le> 0"
    then have "0 < total_weight ws" by simp
    from choice_pos [OF assms this] obtain x w r' where "choice rr ws r = (Some x, r')"
      by blast
    with none show False by simp
  qed
qed (simp add: choice_def)

lemma choice_None_iff_witness:
  "randrange_ok (\<lambda>(s::int) n. (s mod n, s + 1)) \<and> nonneg_weights ([] :: (string \<times> int) list) \<and>
   fst (choice (\<lambda>(s::int) n. (s mod n, s + 1)) ([] :: (string \<times> int) list) 0) = None"
proof -
  have ok: "randrange_ok (\<lambda>(s::int) n. (s mod n, s + 1))"
    by (simp add: randrange_ok_def)
  have nn: "nonneg_weights ([] :: (string \<times> int) list)" by simp
  from choice_None_iff [OF ok nn, of 0] ok nn show ?thesis by simp
qed

end
