(* ===== verification/Detokenizer.thy ===== *)
theory Detokenizer
  imports Tokenizer
begin

text \<open>
  The detokenizer \<open>join(words)\<close> of \<open>markov.py\<close> (lines 42--49): a word that is a
  substring of \<open>":;!,."\<close> (the test \<open>word in ":;!,."\<close>) is appended as it is, every
  other word after one space.
\<close>

section \<open>Definitions\<close>

fun join_acc :: "string \<Rightarrow> string list \<Rightarrow> string" where
  "join_acc phrase [] = phrase"
| "join_acc phrase (word # words) =
     join_acc (if py_in word punctuation then phrase @ word else phrase @ '' '' @ word) words"

definition join :: "string list \<Rightarrow> string" where
  "join words = join_acc [] words"


text \<open>
  Token lists that \<open>join\<close> and \<open>tokenize\<close> translate into each other: words that are
  non-empty and free of whitespace, punctuation, double quotes and \<open>--\<close>, each
  possibly followed by one punctuation token.
\<close>

definition plain_word :: "string \<Rightarrow> bool" where
  "plain_word w \<longleftrightarrow>
     w \<noteq> [] \<and> list_all (\<lambda>c. \<not> is_space c \<and> c \<notin> set punctuation \<and> c \<noteq> CHR 0x22) w \<and>
     \<not> py_in ''--'' w"

definition punct_token :: "string \<Rightarrow> bool" where
  "punct_token p \<longleftrightarrow> list_ex (\<lambda>c. p = [c]) punctuation"

fun well_spaced :: "string list \<Rightarrow> bool" where
  "well_spaced [] \<longleftrightarrow> True"
| "well_spaced [w] \<longleftrightarrow> plain_word w"
| "well_spaced (w # p # ws) \<longleftrightarrow>
     plain_word w \<and> (if punct_token p then well_spaced ws else well_spaced (p # ws))"

section \<open>Lemmas\<close>

lemma join_acc_concat:
  "join_acc phrase words =
     phrase @ concat (map (\<lambda>w. if py_in w punctuation then w else '' '' @ w) words)"
  by (induction words arbitrary: phrase) simp_all

lemma plain_word_not_in_punctuation:
  assumes "plain_word w"
  shows "\<not> py_in w punctuation"
proof
  assume "py_in w punctuation"
  then obtain a b where ab: "punctuation = a @ w @ b" by (auto simp: py_in_iff)
  from assms have w: "w \<noteq> []" and h: "hd w \<notin> set punctuation"
    by (auto simp: plain_word_def list_all_iff)
  from w have "hd w \<in> set (a @ w @ b)" by simp
  with ab h show False by simp
qed

lemma punct_token_in_punctuation: "punct_token p \<Longrightarrow> py_in p punctuation"
  by (auto simp: punct_token_def list_ex_iff py_in_iff dest: split_list)

lemma punct_token_char: "punct_token p \<Longrightarrow> \<exists>c. p = [c] \<and> c \<in> set punctuation"
  by (auto simp: punct_token_def list_ex_iff)

lemma py_in_dd_snoc:
  assumes "py_in ''--'' (w @ [c])" "c \<noteq> CHR ''-''"
  shows "py_in ''--'' w"
proof -
  from assms(1) obtain a b where ab: "w @ [c] = a @ ''--'' @ b" by (auto simp: py_in_iff)
  with assms(2) have "b \<noteq> []" by (cases b) auto
  then obtain b' where "b = b' @ [c]" using ab by (metis append_assoc append_butlast_last_id last_appendR last_snoc)
  with ab have "w = a @ ''--'' @ b'" by simp
  then show ?thesis by (auto simp: py_in_iff)
qed

lemma py_strip_by_snoc:
  assumes "w \<noteq> []" "\<forall>x\<in>set w. \<not> P x" "P c"
  shows "py_strip_by P (w @ [c]) = w"
proof -
  from assms(1,2) have "dropWhile P (w @ [c]) = w @ [c]" by (cases w) simp_all
  moreover have "dropWhile P (rev w) = rev w"
  proof (cases "rev w")
    case (Cons a list)
    then have "a \<in> set w" by (metis list.set_intros(1) set_rev)
    with assms(2) Cons show ?thesis by simp
  qed simp
  ultimately show ?thesis using assms(3) by (simp add: py_strip_by_def)
qed


lemma plain_wordD:
  assumes "plain_word w"
  shows "w \<noteq> []" "\<forall>c\<in>set w. \<not> is_space c" "\<forall>c\<in>set w. c \<notin> set punctuation"
    "\<forall>c\<in>set w. c \<noteq> CHR 0x22" "\<not> py_in ''--'' w"
  using assms by (auto simp: plain_word_def list_all_iff)

lemma simplify_plain: "\<forall>c\<in>set w. c \<noteq> CHR 0x22 \<Longrightarrow> simplify w = w"
  by (simp add: simplify_def py_strip_def py_strip_by_no_P)

lemma tokenize_plain: "plain_word w \<Longrightarrow> tokenize w = [w]"
proof -
  assume pw: "plain_word w"
  note d = plain_wordD [OF pw]
  have "last w \<notin> set punctuation" using d(1,3) by simp
  then have "clause_parts w = [w]"
    using d(5) by (simp add: clause_parts_def clause_punct_last)
  with d show ?thesis by (simp add: tokenize_chunk simplify_plain)
qed

lemma tokenize_plain_punct:
  assumes "plain_word w" "punct_token p"
  shows "tokenize (w @ p) = [w, p]"
proof -
  note d = plain_wordD [OF assms(1)]
  from punct_token_char [OF assms(2)] obtain c where p: "p = [c]" and c: "c \<in> set punctuation"
    by blast
  from c have c_ne: "c \<noteq> CHR ''-''" "c \<noteq> CHR 0x22" "\<not> is_space c"
    by (auto simp: punctuation_def is_space_def py_whitespace_def)
  have dd: "\<not> py_in ''--'' (w @ [c])" using py_in_dd_snoc [OF _ c_ne(1)] d(5) by blast
  have strip: "py_strip [c] (w @ [c]) = w"
    unfolding py_strip_def using d(1,3) c by (intro py_strip_by_snoc) auto
  have "clause_parts (w @ [c]) = [w, [c]]"
    using dd c strip by (simp add: clause_parts_def clause_punct_last)
  moreover have "\<forall>x\<in>set (w @ [c]). \<not> is_space x" using d(2) c_ne(3) by simp
  ultimately show ?thesis
    using d(4) c_ne(2) p by (simp add: tokenize_chunk simplify_plain)
qed

lemma join_well_spaced_head:
  "well_spaced ws \<Longrightarrow> join ws = [] \<or> is_space (hd (join ws))"
  by (cases ws rule: well_spaced.cases)
    (auto simp: join_def join_acc_concat plain_word_not_in_punctuation is_space_def
      py_whitespace_def)

section \<open>Properties of the detokenizer\<close>

text \<open>
  Claim C20. The attachment rule of \<open>join\<close> is substring containment, not membership
  in the punctuation set: a token is appended without a space exactly when it occurs
  contiguously in \<open>":;!,."\<close>, which includes the empty token and tokens such as
  \<open>":;"\<close>.
\<close>

theorem join_snoc:
  "join (words @ [w]) =
     join words @ (if \<exists>a b. '':;!,.'' = a @ w @ b then w else '' '' @ w)"
  by (simp add: join_def join_acc_concat py_in_iff punctuation_def)

lemma join_snoc_witness:
  "join [''a'', ''''] = '' a'' \<and> join [''a'', '',.''] = '' a,.'' \<and> join [''a'', ''--''] = '' a --''"
  using join_snoc [of "[''a'']" "''''"] join_snoc [of "[''a'']" "'',.''"]
    join_snoc [of "[''a'']" "''--''"]
  by (simp_all add: join_def punctuation_def)

text \<open>
  Claim C21. Round trip: for a token list of plain words, each possibly followed by one
  punctuation token, tokenizing the detokenized text gives the list back.
\<close>

theorem tokenize_join:
  "well_spaced ws \<Longrightarrow> tokenize (join ws) = ws"
proof (induction ws rule: well_spaced.induct)
  case 1
  then show ?case by (simp add: join_def tokenize_def py_split_def)
next
  case (2 w)
  then show ?case
    by (simp add: join_def plain_word_not_in_punctuation tokenize_Cons_space space_not_punct
        tokenize_plain)
next
  case (3 w p ws)
  then have pw: "plain_word w" by simp
  have jw: "join (w # xs) = CHR '' '' # w @ join xs" for xs
    by (simp add: join_def join_acc_concat plain_word_not_in_punctuation [OF pw])
  show ?case
  proof (cases "punct_token p")
    case True
    with "3.prems" have ws: "well_spaced ws" by simp
    have "join (w # p # ws) = CHR '' '' # (w @ p) @ join ws"
      using jw [of "p # ws"] punct_token_in_punctuation [OF True]
      by (simp add: join_def join_acc_concat)
    then show ?thesis
      using tokenize_append_space [OF join_well_spaced_head [OF ws], of "w @ p"]
        tokenize_plain_punct [OF pw True] "3.IH"(1) [OF True ws]
      by (simp add: tokenize_Cons_space space_not_punct)
  next
    case False
    with "3.prems" have ws: "well_spaced (p # ws)" by simp
    show ?thesis
      using jw [of "p # ws"] tokenize_append_space [OF join_well_spaced_head [OF ws], of w]
        tokenize_plain [OF pw] "3.IH"(2) [OF False ws]
      by (simp add: tokenize_Cons_space space_not_punct)
  qed
qed

lemma tokenize_join_witness:
  "well_spaced [''Hello'', '','', ''world'', ''.''] \<and>
   join [''Hello'', '','', ''world'', ''.''] = '' Hello, world.'' \<and>
   tokenize '' Hello, world.'' = [''Hello'', '','', ''world'', ''.'']"
proof -
  have ws: "well_spaced [''Hello'', '','', ''world'', ''.'']"
    by (simp add: plain_word_def punct_token_def punctuation_def is_space_def py_whitespace_def)
  have j: "join [''Hello'', '','', ''world'', ''.''] = '' Hello, world.''"
    by (simp add: join_def punctuation_def)
  from tokenize_join [OF ws] have t: "tokenize '' Hello, world.'' = [''Hello'', '','', ''world'', ''.'']"
    unfolding j .
  from ws j t show ?thesis by blast
qed

end
