(* ===== verification/Generator.thy ===== *)
theory Generator
  imports Chain Sampler Detokenizer
begin

text \<open>
  The read path of \<open>MarkovChain\<close> (\<open>markov.py\<close> lines 65--78): \<open>get(prefix)\<close> reads
  \<open>self.table[tuple(prefix)]\<close>, which on the \<open>defaultdict\<close> inserts an empty
  successor dict for a context never seen, and samples from its items with
  \<open>choice\<close>; \<open>output(length)\<close> collects tokens until it has \<open>length\<close> of them,
  and at a dead end returns what it has, a paragraph break, and the result of a
  recursive \<open>self.output(length - len(result))\<close>. The recursion need not end, so
  \<open>output\<close> is a \<open>partial_function\<close> into \<open>option\<close>: \<open>None\<close> is the run that
  never returns (in CPython, the one that ends in \<open>RecursionError\<close>).
\<close>

section \<open>Definitions\<close>

text \<open>The read \<open>self.table[key]\<close> of the outer \<open>defaultdict\<close>.\<close>

definition table_touch :: "table \<Rightarrow> prefix \<Rightarrow> table" where
  "table_touch t prefix = AList.update_with_aux [] prefix id t"

definition get :: "'r randrange \<Rightarrow> markov_chain \<Rightarrow> prefix \<Rightarrow> 'r \<Rightarrow>
    token option \<times> 'r \<times> markov_chain" where
  "get randrange mc prefix r =
     (let t = table_touch (table mc) prefix in
      case choice randrange (succs t prefix) r of (word, r') \<Rightarrow> (word, r', mc\<lparr>table := t\<rparr>))"

definition paragraph_break :: string where
  "paragraph_break = [CHR 0x0A, CHR 0x0A]"

text \<open>
  The \<open>while\<close> loop of \<open>output\<close>, with its locals \<open>prefix\<close> and \<open>result\<close>; the
  first argument \<open>n\<close> is the parameter \<open>length\<close> of the current call.
\<close>

partial_function (option) output_loop :: "'r randrange \<Rightarrow> nat \<Rightarrow> prefix \<Rightarrow> token list \<Rightarrow>
    'r \<Rightarrow> markov_chain \<Rightarrow> (string \<times> 'r \<times> markov_chain) option" where
  "output_loop randrange n prefix result r mc =
     (if length result < n then
        (case get randrange mc prefix r of
           (None, r', mc') \<Rightarrow>
             Option.bind
               (output_loop randrange (n - length result) (start_prefix (order mc')) [] r' mc')
               (\<lambda>(rest, r'', mc''). Some (join result @ paragraph_break @ rest, r'', mc''))
         | (Some word, r', mc') \<Rightarrow>
             output_loop randrange n (slide prefix word) (result @ [word]) r' mc')
      else Some (join result, r, mc))"

definition output_chain :: "'r randrange \<Rightarrow> markov_chain \<Rightarrow> nat \<Rightarrow> 'r \<Rightarrow>
    (string \<times> 'r \<times> markov_chain) option" where
  "output_chain randrange mc n r = output_loop randrange n (start_prefix (order mc)) [] r mc"

section \<open>Abstract view of a generated text\<close>

text \<open>
  A walk of the table from a context: every token follows the context formed by the
  tokens before it with a positive count.
\<close>

fun walk :: "table \<Rightarrow> prefix \<Rightarrow> token list \<Rightarrow> bool" where
  "walk t prefix [] = True"
| "walk t prefix (word # words) \<longleftrightarrow> 0 < count_of t prefix word \<and> walk t (slide prefix word) words"

text \<open>
  A generated string made of segments: the segments, joined by \<open>join\<close> and separated
  by paragraph breaks, give the string; their lengths add up to \<open>n\<close>; each is a walk
  from the start context; the first begins with the tokens \<open>res\<close> already collected.
\<close>

definition segmented :: "table \<Rightarrow> nat \<Rightarrow> nat \<Rightarrow> token list \<Rightarrow> string \<Rightarrow> bool" where
  "segmented t k n res s \<longleftrightarrow>
     (\<exists>segs. s = py_join paragraph_break (map join segs) \<and> sum_list (map length segs) = n \<and>
        segs \<noteq> [] \<and> take (length res) (hd segs) = res \<and>
        (\<forall>seg\<in>set segs. walk t (start_prefix k) seg))"

section \<open>Lemmas\<close>

lemma succs_table_touch [table_simps]: "succs (table_touch t p) q = succs t q"
  by (simp add: succs_def table_touch_def)

lemma wf_table_touch: "wf_table t \<Longrightarrow> wf_table (table_touch t p)"
  unfolding table_touch_def by (rule wf_table_update) (simp_all add: wf_table_succs)

lemma get_eq:
  "get rr mc p r =
     (fst (choice rr (succs (table mc) p) r), snd (choice rr (succs (table mc) p) r),
      mc\<lparr>table := table_touch (table mc) p\<rparr>)"
  by (simp add: get_def succs_table_touch split: prod.split)

lemma get_state:
  assumes "get rr mc p r = (w, r', mc')"
  shows "order mc' = order mc" "succs (table mc') = succs (table mc)"
    "wf_table (table mc) \<Longrightarrow> wf_table (table mc')"
  using assms by (auto simp: get_eq succs_table_touch wf_table_touch)

lemma count_of_cong: "succs t = succs t' \<Longrightarrow> count_of t = count_of t'"
  by (simp add: count_of_def [abs_def])

lemma walk_cong: "succs t = succs t' \<Longrightarrow> walk t = walk t'"
proof -
  assume eq: "succs t = succs t'"
  have "walk t p ws = walk t' p ws" for p ws
    by (induction ws arbitrary: p) (simp_all add: count_of_cong [OF eq])
  then show ?thesis by (simp add: fun_eq_iff)
qed

lemma walk_snoc:
  "walk t p (ws @ [w]) \<longleftrightarrow> walk t p ws \<and> 0 < count_of t (foldl slide p ws) w"
  by (induction ws arbitrary: p) auto

lemma wf_counts_mem_count:
  assumes "wf_counts cs" "x \<in> fst ` set cs"
  shows "0 < get_default 0 cs x"
proof -
  from assms obtain c where mem: "(x, c) \<in> set cs" by force
  with assms(1) have "map_of cs x = Some c" by (simp add: wf_counts_def)
  moreover from mem assms(1) have "0 < c" by (auto simp: wf_counts_def)
  ultimately show ?thesis by simp
qed

lemma get_Some_count:
  assumes "get rr mc p r = (Some w, r', mc')" "wf_table (table mc)"
  shows "0 < count_of (table mc) p w"
proof -
  from assms(1) have "choice rr (succs (table mc) p) r = (Some w, r')"
    by (simp add: get_eq prod_eq_iff)
  then have "w \<in> fst ` set (succs (table mc) p)" by (rule choice_Some_mem)
  with wf_table_succs [OF assms(2)] show ?thesis
    unfolding count_of_def by (rule wf_counts_mem_count)
qed

lemma segmented_done:
  "walk t (start_prefix k) res \<Longrightarrow> length res = n \<Longrightarrow> segmented t k n res (join res)"
  unfolding segmented_def by (rule exI [of _ "[res]"]) simp

lemma segmented_break:
  assumes "walk t (start_prefix k) res" "length res \<le> n"
    and "segmented t k (n - length res) [] rest"
  shows "segmented t k n res (join res @ paragraph_break @ rest)"
proof -
  from assms(3) obtain segs where segs: "rest = py_join paragraph_break (map join segs)"
    "sum_list (map length segs) = n - length res" "segs \<noteq> []"
    "\<forall>seg\<in>set segs. walk t (start_prefix k) seg"
    by (auto simp: segmented_def)
  with assms(1,2) show ?thesis
    unfolding segmented_def by (intro exI [of _ "res # segs"]) (simp add: py_join_Cons)
qed

lemma take_snoc_prefix: "take (length (xs @ [w])) ys = xs @ [w] \<Longrightarrow> take (length xs) ys = xs"
  using take_take [of "length xs" "length (xs @ [w])" ys] by simp

lemma segmented_snoc: "segmented t k n (res @ [w]) s \<Longrightarrow> segmented t k n res s"
  unfolding segmented_def by (blast dest: take_snoc_prefix)

lemma segmented_cong:
  assumes "succs t = succs t'"
  shows "segmented t = segmented t'"
  unfolding segmented_def [abs_def] walk_cong [OF assms] ..

lemma bind_prepend_Some:
  "Option.bind x (\<lambda>(rest, r'', mc''). Some (g rest, r'', mc'')) = Some y \<Longrightarrow>
     \<exists>z. x = Some z \<and> y = (g (fst z), snd z)"
  by (cases x) (auto split: prod.splits)

lemma wf_counts_nonneg: "wf_counts cs \<Longrightarrow> nonneg_weights cs"
  by (auto simp: wf_counts_def nonneg_weights_def list_all_iff)

lemma wf_counts_total: "wf_counts cs \<Longrightarrow> cs \<noteq> [] \<Longrightarrow> 0 < total_weight cs"
proof (induction cs)
  case Nil
  then show ?case by simp
next
  case (Cons c cs)
  then have "0 < snd c" "nonneg_weights cs"
    by (auto simp: wf_counts_def nonneg_weights_def list_all_iff)
  then show ?case using total_weight_nonneg [of cs] by simp
qed

lemma get_live:
  assumes "randrange_ok rr" "wf_table (table mc)" "succs (table mc) p \<noteq> []"
  shows "\<exists>word r' mc'. get rr mc p r = (Some word, r', mc')"
proof -
  from assms(2) have wf: "wf_counts (succs (table mc) p)" by (rule wf_table_succs)
  from choice_pos [OF assms(1) wf_counts_nonneg [OF wf] wf_counts_total [OF wf assms(3)]]
  obtain x w r' where "choice rr (succs (table mc) p) r = (Some x, r')" by blast
  then show ?thesis by (simp add: get_eq)
qed

lemma get_dead:
  "succs (table mc) p = [] \<Longrightarrow> get rr mc p r = (None, r, mc\<lparr>table := table_touch (table mc) p\<rparr>)"
  by (simp add: get_eq choice_def total_weight_def)

lemma weight_of_wf_counts: "wf_counts cs \<Longrightarrow> weight_of w cs = get_default 0 cs w"
proof (induction cs)
  case Nil
  then show ?case by (simp add: weight_of_def)
next
  case (Cons e cs)
  obtain x c where e: "e = (x, c)" by (cases e)
  from Cons.prems e have wf: "wf_counts cs" and nx: "x \<notin> set (keys cs)"
    by (auto simp: wf_counts_def)
  have "w \<notin> set (keys cs) \<Longrightarrow> weight_of w cs = 0"
    by (induction cs) (auto simp: weight_of_def)
  with nx Cons.IH [OF wf] show ?case
    by (auto simp: e weight_of_def split: option.split)
qed

section \<open>Runs of the generator\<close>

text \<open>
  Fixpoint induction for a run that returns, one case per branch of the loop body:
  the loop has collected enough tokens, it meets a dead end and restarts, or it
  appends a token.
\<close>

lemma output_loop_induct [consumes 1, case_names stop dead live]:
  assumes ret: "output_loop rr n prefix res r mc = Some y"
    and stop: "\<And>rr n prefix res r mc. \<not> length res < n \<Longrightarrow> P rr n prefix res r mc (join res, r, mc)"
    and dead: "\<And>rr n prefix res r mc r' mc' z. length res < n \<Longrightarrow>
      get rr mc prefix r = (None, r', mc') \<Longrightarrow>
      P rr (n - length res) (start_prefix (order mc')) [] r' mc' z \<Longrightarrow>
      P rr n prefix res r mc (join res @ paragraph_break @ fst z, snd z)"
    and live: "\<And>rr n prefix res r mc r' mc' word y. length res < n \<Longrightarrow>
      get rr mc prefix r = (Some word, r', mc') \<Longrightarrow>
      P rr n (slide prefix word) (res @ [word]) r' mc' y \<Longrightarrow> P rr n prefix res r mc y"
  shows "P rr n prefix res r mc y"
proof (rule output_loop.raw_induct [where P = P, OF _ ret])
  fix f rr n prefix res r mc y
  assume IH: "\<And>rr n prefix res r mc y. f rr n prefix res r mc = Some y \<Longrightarrow> P rr n prefix res r mc y"
    and step: "(if length res < n then
        (case get rr mc prefix r of
           (None, r', mc') \<Rightarrow>
             Option.bind (f rr (n - length res) (start_prefix (order mc')) [] r' mc')
               (\<lambda>(rest, r'', mc''). Some (join res @ paragraph_break @ rest, r'', mc''))
         | (Some word, r', mc') \<Rightarrow> f rr n (slide prefix word) (res @ [word]) r' mc')
      else Some (join res, r, mc)) = Some y"
  obtain w r1 mc1 where g: "get rr mc prefix r = (w, r1, mc1)" by (rule prod_cases3)
  show "P rr n prefix res r mc y"
  proof (cases "length res < n")
    case False
    with step stop show ?thesis by auto
  next
    case True
    show ?thesis
    proof (cases w)
      case None
      with True step g have "Option.bind (f rr (n - length res) (start_prefix (order mc1)) [] r1 mc1)
          (\<lambda>(rest, r'', mc''). Some (join res @ paragraph_break @ rest, r'', mc'')) = Some y"
        by simp
      from bind_prepend_Some [OF this] obtain z where
        rec: "f rr (n - length res) (start_prefix (order mc1)) [] r1 mc1 = Some z"
        and y: "y = (join res @ paragraph_break @ fst z, snd z)" by blast
      from dead [OF True g [unfolded None] IH [OF rec]] y show ?thesis by simp
    next
      case (Some word)
      with True step g have rec: "f rr n (slide prefix word) (res @ [word]) r1 mc1 = Some y"
        by simp
      from live [OF True g [unfolded Some] IH [OF rec]] show ?thesis .
    qed
  qed
qed

lemma output_loop_segmented:
  assumes ret: "output_loop rr n prefix res r mc = Some y"
  shows "wf_table (table mc) \<longrightarrow> walk (table mc) (start_prefix (order mc)) res \<longrightarrow>
     prefix = foldl slide (start_prefix (order mc)) res \<longrightarrow> length res \<le> n \<longrightarrow>
     segmented (table mc) (order mc) n res (fst y)"
  using ret
proof (induction rule: output_loop_induct)
  case (stop rr n prefix res r mc)
  then show ?case by (simp add: segmented_done)
next
  case (dead rr n prefix res r mc r' mc' z)
  note st = get_state [OF dead.hyps(2)]
  note eq = segmented_cong [OF st(2)]
  show ?case
  proof (intro impI)
    assume wf: "wf_table (table mc)" and wk: "walk (table mc) (start_prefix (order mc)) res"
      and "length res \<le> n"
    from dead.IH st(1,3) wf have "segmented (table mc') (order mc') (n - length res) [] (fst z)"
      by simp
    with eq st(1) have "segmented (table mc) (order mc) (n - length res) [] (fst z)" by simp
    with wk dead.hyps(1) show "segmented (table mc) (order mc) n res
        (fst (join res @ paragraph_break @ fst z, snd z))"
      by (simp add: segmented_break)
  qed
next
  case (live rr n prefix res r mc r' mc' word y)
  note st = get_state [OF live.hyps(2)]
  note eq = segmented_cong [OF st(2)] walk_cong [OF st(2)]
  show ?case
  proof (intro impI)
    assume wf: "wf_table (table mc)" and wk: "walk (table mc) (start_prefix (order mc)) res"
      and pf: "prefix = foldl slide (start_prefix (order mc)) res" and "length res \<le> n"
    from live.hyps(2) wf have "0 < count_of (table mc) prefix word"
      by (rule get_Some_count)
    with wk pf eq(2) st(1) have "walk (table mc') (start_prefix (order mc')) (res @ [word])"
      by (simp add: walk_snoc)
    with live.IH st(1,3) wf pf live.hyps(1)
    have "segmented (table mc') (order mc') n (res @ [word]) (fst y)" by simp
    with eq st(1) show "segmented (table mc) (order mc) n res (fst y)"
      by (simp add: segmented_snoc)
  qed
qed

lemma output_loop_state:
  assumes ret: "output_loop rr n prefix res r mc = Some y"
  shows "order (snd (snd y)) = order mc \<and> succs (table (snd (snd y))) = succs (table mc) \<and>
    (wf_table (table mc) \<longrightarrow> wf_table (table (snd (snd y))))"
  using ret
proof (induction rule: output_loop_induct)
  case (stop rr n prefix res r mc)
  then show ?case by simp
next
  case (dead rr n prefix res r mc r' mc' z)
  then show ?case using get_state [OF dead.hyps(2)] by simp
next
  case (live rr n prefix res r mc r' mc' word y)
  then show ?case using get_state [OF live.hyps(2)] by simp
qed

lemma output_loop_dead_start:
  assumes ret: "output_loop rr n prefix res r mc = Some y"
  shows "prefix = start_prefix (order mc) \<longrightarrow> res = [] \<longrightarrow>
    succs (table mc) (start_prefix (order mc)) = [] \<longrightarrow> 0 < n \<longrightarrow> False"
  using ret
proof (induction rule: output_loop_induct)
  case (stop rr n prefix res r mc)
  then show ?case by auto
next
  case (dead rr n prefix res r mc r' mc' z)
  then show ?case using get_state [OF dead.hyps(2)] by auto
next
  case (live rr n prefix res r mc r' mc' word y)
  then show ?case using get_dead [of mc prefix rr r] by auto
qed

lemma output_loop_terminates:
  assumes rr: "randrange_ok rr"
  shows "wf_table (table mc) \<Longrightarrow> succs (table mc) (start_prefix (order mc)) \<noteq> [] \<Longrightarrow>
    \<exists>y. output_loop rr n prefix res r mc = Some y"
proof (induction "n - length res" arbitrary: n prefix res r mc rule: less_induct)
  case less
  show ?case
  proof (cases "length res < n")
    case False
    then show ?thesis by (simp add: output_loop.simps [of rr n prefix res r mc])
  next
    case True
    obtain w r1 mc1 where g: "get rr mc prefix r = (w, r1, mc1)" by (rule prod_cases3)
    note st = get_state [OF g]
    from st less.prems have wf1: "wf_table (table mc1)"
      and live1: "succs (table mc1) (start_prefix (order mc1)) \<noteq> []" by simp_all
    show ?thesis
    proof (cases w)
      case (Some word)
      from True have "n - length (res @ [word]) < n - length res" by simp
      from less.hyps [OF this wf1 live1] obtain y where
        "output_loop rr n (slide prefix word) (res @ [word]) r1 mc1 = Some y" by blast
      with True g Some have "output_loop rr n prefix res r mc = Some y"
        by (simp add: output_loop.simps [of rr n prefix res r mc])
      then show ?thesis ..
    next
      case None
      let ?m = "n - length res"
      let ?s = "start_prefix (order mc1)"
      obtain word r2 mc2 where g2: "get rr mc1 ?s r1 = (Some word, r2, mc2)"
        using get_live [OF rr wf1 live1] by blast
      note st2 = get_state [OF g2]
      from st2 wf1 live1 have wf2: "wf_table (table mc2)"
        and live2: "succs (table mc2) (start_prefix (order mc2)) \<noteq> []" by simp_all
      from True have "?m - length [word] < n - length res" by simp
      from less.hyps [OF this wf2 live2] obtain y where
        y: "output_loop rr ?m (slide ?s word) [word] r2 mc2 = Some y" by blast
      from True y g2 have "output_loop rr ?m ?s [] r1 mc1 = Some y"
        by (simp add: output_loop.simps [of rr ?m ?s "[]" r1 mc1])
      with True g None have "output_loop rr n prefix res r mc =
          Some (join res @ paragraph_break @ fst y, snd y)"
        by (simp add: output_loop.simps [of rr n prefix res r mc] split: prod.split)
      then show ?thesis ..
    qed
  qed
qed

section \<open>Properties of generation\<close>

lemma output_chain_example:
  "output_chain (\<lambda>(s::int) n. (s mod n, s + 1)) \<lparr>order = 1, table = [([None], [(''a'', 1)])]\<rparr> 2 0 =
     Some ('' a'' @ paragraph_break @ '' a'', 2,
       \<lparr>order = 1, table = [([None], [(''a'', 1)]), ([Some ''a''], [])]\<rparr>)"
  unfolding output_chain_def
  apply (subst output_loop.simps)
  apply (simp add: get_def table_touch_def start_prefix_def succs_def choice_def total_weight_def)
  apply (subst output_loop.simps)
  apply (simp add: get_def table_touch_def start_prefix_def succs_def choice_def total_weight_def
      slide_def)
  apply (subst output_loop.simps)
  apply (simp add: get_def table_touch_def start_prefix_def succs_def choice_def total_weight_def)
  apply (subst output_loop.simps)
  apply (simp add: join_def punctuation_def)
  done

lemma randrange_ok_mod: "randrange_ok (\<lambda>(s::int) n. (s mod n, s + 1))"
  by (simp add: randrange_ok_def)



text \<open>
  Claim C2. Non-termination at a dead start: if the start context has no successor
  (for instance nothing has been ingested), \<open>output(length)\<close> for a positive length
  never returns: the dead end is hit before any token is collected and the recursive
  call \<open>self.output(length - 0)\<close> repeats the same call. In CPython this ends in
  \<open>RecursionError\<close>.
\<close>

theorem output_chain_dead_start:
  assumes "succs (table mc) (start_prefix (order mc)) = []" "0 < n"
  shows "output_chain rr mc n r = None"
proof (rule ccontr)
  assume "output_chain rr mc n r \<noteq> None"
  then obtain y where "output_loop rr n (start_prefix (order mc)) [] r mc = Some y"
    by (auto simp: output_chain_def)
  from output_loop_dead_start [OF this] assms show False by simp
qed

lemma output_chain_dead_start_witness:
  "succs (table (init 3)) (start_prefix (order (init 3))) = [] \<and> 0 < (5::nat) \<and>
   output_chain (\<lambda>(s::int) n. (s mod n, s + 1)) (init 3) 5 0 = None"
proof -
  have dead: "succs (table (init 3)) (start_prefix (order (init 3))) = []"
    by (simp add: init_def succs_def)
  have n: "0 < (5::nat)" by simp
  from dead n output_chain_dead_start [OF dead n, where rr = "\<lambda>(s::int) n. (s mod n, s + 1)" and r = 0]
  show ?thesis by blast
qed

text \<open>
  Claim C3. Functional correctness of \<open>output\<close>: a returned text consists of exactly
  \<open>length\<close> tokens, cut into segments that are detokenized with \<open>join\<close> and separated
  by the paragraph break \<open>"\n\n"\<close>; and every segment is a walk of the table from the
  start context, so every token follows its context with a positive count (no n-gram
  that was never observed is produced).
\<close>

theorem output_chain_segmented:
  assumes "output_chain rr mc n r = Some (s, r', mc')" "wf_table (table mc)"
  shows "segmented (table mc) (order mc) n [] s"
  using output_loop_segmented [OF assms(1) [unfolded output_chain_def]] assms(2)
  by simp

lemma output_chain_segmented_witness:
  "output_chain (\<lambda>(s::int) n. (s mod n, s + 1)) \<lparr>order = 1, table = [([None], [(''a'', 1)])]\<rparr> 2 0 =
     Some ('' a'' @ paragraph_break @ '' a'', 2,
       \<lparr>order = 1, table = [([None], [(''a'', 1)]), ([Some ''a''], [])]\<rparr>) \<and>
   wf_table (table \<lparr>order = 1, table = [([None], [(''a'', 1)])]\<rparr>) \<and>
   segmented [([None], [(''a'', 1)])] 1 2 [] ('' a'' @ paragraph_break @ '' a'')"
proof -
  have wf: "wf_table (table \<lparr>order = 1, table = [([None], [(''a'', 1)])]\<rparr>)"
    by (simp add: wf_table_def wf_counts_def)
  from output_chain_segmented [OF output_chain_example wf] output_chain_example wf
  show ?thesis by simp
qed

text \<open>
  Claim C4. Generation does not change the model's statistics: after \<open>output\<close> the
  order is the same, the successor counts of every context are the same, and a well
  formed table stays well formed. (The table itself may grow: reading an unseen context
  on the \<open>defaultdict\<close> stores an empty successor dict for it.)
\<close>

theorem output_chain_keeps_counts:
  assumes "output_chain rr mc n r = Some (s, r', mc')"
  shows "order mc' = order mc \<and> succs (table mc') = succs (table mc) \<and>
    (wf_table (table mc) \<longrightarrow> wf_table (table mc'))"
  using output_loop_state [OF assms [unfolded output_chain_def]] by simp

lemma output_chain_keeps_counts_witness:
  "output_chain (\<lambda>(s::int) n. (s mod n, s + 1)) \<lparr>order = 1, table = [([None], [(''a'', 1)])]\<rparr> 2 0 =
     Some ('' a'' @ paragraph_break @ '' a'', 2,
       \<lparr>order = 1, table = [([None], [(''a'', 1)]), ([Some ''a''], [])]\<rparr>) \<and>
   succs [([None], [(''a'', 1)]), ([Some ''a''], [])] = succs [([None], [(''a'', 1)])] \<and>
   [([None], [(''a'', 1)]), ([Some ''a''], [])] \<noteq> [([None], [(''a'', 1)])]"
proof -
  from output_chain_keeps_counts [OF output_chain_example] output_chain_example
  show ?thesis by simp
qed


text \<open>
  Claim C23. One step of generation samples the next token in proportion to its count:
  of the \<open>total\<close> equally likely draws for a context, exactly \<open>count_of\<close> of them make
  \<open>get\<close> return a given token.
\<close>

theorem get_distribution:
  assumes "wf_table (table mc)"
  shows "int (card {c. 0 \<le> c \<and> c < total_weight (succs (table mc) p) \<and>
      fst (get (\<lambda>r n. (c, r)) mc p r) = Some w}) = count_of (table mc) p w"
proof -
  let ?cs = "succs (table mc) p"
  have wf: "wf_counts ?cs" using assms by (rule wf_table_succs)
  have "{c. 0 \<le> c \<and> c < total_weight ?cs \<and> fst (get (\<lambda>r n. (c, r)) mc p r) = Some w} =
      {c. 0 \<le> c \<and> c < total_weight ?cs \<and> choice_scan ?cs c = Some w}"
    by (auto simp: get_eq choice_def)
  then show ?thesis
    using choice_scan_card [OF wf_counts_nonneg [OF wf], of w]
    by (simp add: weight_of_wf_counts [OF wf] count_of_def)
qed
lemma get_distribution_witness:
  "wf_table (table \<lparr>order = 1, table = [([None], [(''a'', 1), (''b'', 3)])]\<rparr>) \<and>
   int (card {c. 0 \<le> c \<and> c < total_weight (succs [([None], [(''a'', 1), (''b'', 3)])] [None]) \<and>
     fst (get (\<lambda>r n. (c, r)) \<lparr>order = 1, table = [([None], [(''a'', 1), (''b'', 3)])]\<rparr> [None]
       (0::int)) = Some ''b''}) = 3"
proof -
  have wf: "wf_table (table \<lparr>order = 1, table = [([None], [(''a'', 1), (''b'', 3)])]\<rparr>)"
    by (simp add: wf_table_def wf_counts_def)
  have "count_of [([None], [(''a'', 1), (''b'', 3)])] [None] ''b'' = 3"
    by (simp add: count_of_def succs_def)
  with wf get_distribution [OF wf, of "[None]" "0::int" "''b''"] show ?thesis by simp
qed

end
