(* ===== verification/Runs.thy ===== *)
theory Runs
  imports Generator
begin

text \<open>
  Whole runs of \<open>output\<close> (\<open>markov.py\<close> lines 69--78) beyond their shape: how many
  paragraph breaks a run can print, which bounds the depth of the recursion of
  \<open>output\<close> (line 75 adds one break per nested call), and which texts a run can
  print at all. For the latter the random source is made concrete as a replayed list
  of draws, so that "some sequence of draws" can be stated.
\<close>

section \<open>Definitions\<close>

text \<open>
  A random source that replays a list of draws, reduced into range; an exhausted list
  draws \<open>0\<close>.
\<close>

fun draws :: "int list randrange" where
  "draws [] n = (0, [])"
| "draws (d # ds) n = (d mod n, ds)"

text \<open>The number of newline characters of a printed text.\<close>

definition line_breaks :: "string \<Rightarrow> nat" where
  "line_breaks s = length (filter (\<lambda>c. c = CHR 0x0A) s)"

section \<open>Lemmas\<close>

lemma randrange_ok_draws: "randrange_ok draws"
proof -
  have "0 < n \<Longrightarrow> 0 \<le> fst (draws ds n) \<and> fst (draws ds n) < n" for ds n
    by (cases ds) simp_all
  then show ?thesis by (simp add: randrange_ok_def)
qed

lemma line_breaks_simps [simp]:
  "line_breaks [] = 0"
  "line_breaks (c # s) = (if c = CHR 0x0A then Suc (line_breaks s) else line_breaks s)"
  "line_breaks (s @ s') = line_breaks s + line_breaks s'"
  "line_breaks paragraph_break = 2"
  by (simp_all add: line_breaks_def paragraph_break_def)

lemma line_breaks_no_space: "\<forall>c\<in>set w. \<not> is_space c \<Longrightarrow> line_breaks w = 0"
  by (auto simp: line_breaks_def filter_empty_conv is_space_def py_whitespace_def)

lemma line_breaks_join:
  "list_all (list_all (\<lambda>c. \<not> is_space c)) ws \<Longrightarrow> line_breaks (join ws) = 0"
  by (induction ws) (simp_all add: join_def join_acc_concat line_breaks_no_space list_all_iff)

lemma no_space_tokens_touch: "no_space_tokens t \<Longrightarrow> no_space_tokens (table_touch t p)"
  unfolding table_touch_def by (rule no_space_tokens_update) (simp_all add: no_space_tokens_succs)

lemma get_no_space_tokens:
  "get rr mc p r = (w, r', mc') \<Longrightarrow> no_space_tokens (table mc) \<Longrightarrow> no_space_tokens (table mc')"
  by (auto simp: get_eq no_space_tokens_touch)

lemma get_Some_succs:
  assumes "get rr mc p r = (Some w, r', mc')"
  shows "w \<in> fst ` set (succs (table mc) p)"
proof -
  from assms have "choice rr (succs (table mc) p) r = (Some w, r')"
    by (simp add: get_eq prod_eq_iff)
  then show ?thesis by (rule choice_Some_mem)
qed

lemma get_Some_no_space:
  assumes "get rr mc p r = (Some w, r', mc')" "no_space_tokens (table mc)"
  shows "list_all (\<lambda>c. \<not> is_space c) w"
proof -
  from get_Some_succs [OF assms(1)] obtain x where "x \<in> set (succs (table mc) p)" "fst x = w"
    by force
  with no_space_tokens_succs [OF assms(2)] show ?thesis by (auto simp: list_all_iff)
qed

lemma get_Some_live:
  "get rr mc p r = (Some w, r', mc') \<Longrightarrow> succs (table mc) p \<noteq> []"
  using get_Some_succs by fastforce

lemma output_loop_no_space_tokens:
  assumes "output_loop rr n prefix res r mc = Some y"
  shows "no_space_tokens (table mc) \<longrightarrow> no_space_tokens (table (snd (snd y)))"
  using assms
proof (induction rule: output_loop_induct)
  case (stop rr n prefix res r mc)
  then show ?case by simp
next
  case (dead rr n prefix res r mc r' mc' z)
  then show ?case using get_no_space_tokens [OF dead.hyps(2)] by simp
next
  case (live rr n prefix res r mc r' mc' word y)
  then show ?case using get_no_space_tokens [OF live.hyps(2)] by simp
qed

section \<open>Paragraph breaks of a run\<close>

lemma output_loop_line_breaks:
  assumes ret: "output_loop rr n prefix res r mc = Some y"
  shows "randrange_ok rr \<longrightarrow> wf_table (table mc) \<longrightarrow> no_space_tokens (table mc) \<longrightarrow>
    list_all (list_all (\<lambda>c. \<not> is_space c)) res \<longrightarrow>
    prefix = foldl slide (start_prefix (order mc)) res \<longrightarrow>
    line_breaks (fst y) \<le> 2 * (n - 1) \<and>
    (res = [] \<longrightarrow> 0 < n \<longrightarrow> succs (table mc) (start_prefix (order mc)) \<noteq> [])"
  using ret
proof (induction rule: output_loop_induct)
  case (stop rr n prefix res r mc)
  then show ?case by (auto simp: line_breaks_join)
next
  case (dead rr n prefix res r mc r' mc' z)
  note st = get_state [OF dead.hyps(2)]
  show ?case
  proof (intro impI)
    assume rr: "randrange_ok rr" and wf: "wf_table (table mc)" and ns: "no_space_tokens (table mc)"
      and ws: "list_all (list_all (\<lambda>c. \<not> is_space c)) res"
      and pf: "prefix = foldl slide (start_prefix (order mc)) res"
    have ns': "no_space_tokens (table mc')" using get_no_space_tokens [OF dead.hyps(2) ns] .
    from dead.IH rr st(3) [OF wf] ns' dead.hyps(1)
    have z: "line_breaks (fst z) \<le> 2 * (n - length res - 1)"
      and live: "succs (table mc') (start_prefix (order mc')) \<noteq> []" by simp_all
    have "res \<noteq> []"
    proof
      assume "res = []"
      with pf live st(1,2) have "succs (table mc) prefix \<noteq> []" by simp
      from get_live [OF rr wf this, of r] dead.hyps(2) show False by auto
    qed
    moreover from this have "1 \<le> length res" by (cases res) simp_all
    with z dead.hyps(1) have "2 + line_breaks (fst z) \<le> 2 * (n - 1)" by arith
    ultimately show "line_breaks (fst (join res @ paragraph_break @ fst z, snd z)) \<le>
        2 * (n - 1) \<and> (res = [] \<longrightarrow> 0 < n \<longrightarrow> succs (table mc) (start_prefix (order mc)) \<noteq> [])"
      using ws by (simp add: line_breaks_join)
  qed
next
  case (live rr n prefix res r mc r' mc' word y)
  note st = get_state [OF live.hyps(2)]
  show ?case
  proof (intro impI)
    assume rr: "randrange_ok rr" and wf: "wf_table (table mc)" and ns: "no_space_tokens (table mc)"
      and ws: "list_all (list_all (\<lambda>c. \<not> is_space c)) res"
      and pf: "prefix = foldl slide (start_prefix (order mc)) res"
    have "list_all (\<lambda>c. \<not> is_space c) word" using get_Some_no_space [OF live.hyps(2) ns] .
    with live.IH rr st(1,3) wf get_no_space_tokens [OF live.hyps(2) ns] ws pf
    have "line_breaks (fst y) \<le> 2 * (n - 1)" by simp
    moreover have "res = [] \<longrightarrow> succs (table mc) (start_prefix (order mc)) \<noteq> []"
      using get_Some_live [OF live.hyps(2)] pf by auto
    ultimately show "line_breaks (fst y) \<le> 2 * (n - 1) \<and>
        (res = [] \<longrightarrow> 0 < n \<longrightarrow> succs (table mc) (start_prefix (order mc)) \<noteq> [])" by simp
  qed
qed

section \<open>Every walk can be generated\<close>

lemma get_draw:
  assumes "0 \<le> c" "c < total_weight (succs (table mc) p)"
  shows "get draws mc p (c # ds) =
    (choice_scan (succs (table mc) p) c, ds, mc\<lparr>table := table_touch (table mc) p\<rparr>)"
  using assms by (simp add: get_eq choice_def)

lemma succs_touch_eq: "succs (table (mc\<lparr>table := table_touch (table mc) p\<rparr>)) = succs (table mc)"
  by (simp add: fun_eq_iff succs_table_touch)

lemma output_loop_follows:
  assumes "wf_table (table mc)" "walk (table mc) prefix ws" "length res + length ws = n"
  shows "\<exists>ds mc'. output_loop draws n prefix res (ds @ rest) mc = Some (join (res @ ws), rest, mc')"
  using assms
proof (induction ws arbitrary: prefix res mc)
  case Nil
  then have "output_loop draws n prefix res ([] @ rest) mc = Some (join (res @ []), rest, mc)"
    by (simp add: output_loop.simps [of draws n prefix res rest mc])
  then show ?case by blast
next
  case (Cons w ws)
  let ?cs = "succs (table mc) prefix"
  let ?mc1 = "mc\<lparr>table := table_touch (table mc) prefix\<rparr>"
  from Cons.prems(1) have wf: "wf_counts ?cs" by (rule wf_table_succs)
  from Cons.prems(2) have pos: "0 < count_of (table mc) prefix w"
    and wk: "walk (table mc) (slide prefix w) ws" by simp_all
  from pos have "0 < weight_of w ?cs" by (simp add: weight_of_wf_counts [OF wf] count_of_def)
  from choice_scan_hit [OF wf_counts_nonneg [OF wf] this]
  obtain c where c: "0 \<le> c" "c < total_weight ?cs" "choice_scan ?cs c = Some w" by blast
  have wf1: "wf_table (table ?mc1)" using wf_table_touch [OF Cons.prems(1)] by simp
  have wk1: "walk (table ?mc1) (slide prefix w) ws"
    using wk walk_cong [OF succs_touch_eq [of mc prefix]] by simp
  from Cons.IH [OF wf1 wk1, of "res @ [w]"] Cons.prems(3) obtain ds mc' where
    rec: "output_loop draws n (slide prefix w) (res @ [w]) (ds @ rest) ?mc1 =
      Some (join ((res @ [w]) @ ws), rest, mc')" by auto
  have "output_loop draws n prefix res ((c # ds) @ rest) mc = Some (join (res @ w # ws), rest, mc')"
    using Cons.prems(3) c rec get_draw [OF c(1,2), of "ds @ rest"]
    by (simp add: output_loop.simps [of draws n prefix res "c # ds @ rest" mc])
  then show ?case by blast
qed

section \<open>Properties of runs\<close>

text \<open>
  Claim C26. Bound on the paragraphs of a run, and so on the recursion of
  \<open>output\<close>: with a random source that draws in range, a well formed table whose
  tokens contain no whitespace (which ingestion guarantees), a returned text of
  \<open>output(length)\<close> contains at most \<open>2 (length - 1)\<close> newline characters, that is at
  most \<open>length - 1\<close> paragraph breaks. Every nested call of \<open>output\<close> (line 75) adds
  one break and the tokens add none, so a run nests at most \<open>length - 1\<close> calls. The
  bound is reached (see the witness).
\<close>

theorem output_chain_paragraph_bound:
  assumes "randrange_ok rr" "wf_table (table mc)" "no_space_tokens (table mc)"
    and "output_chain rr mc n r = Some (s, r', mc')"
  shows "line_breaks s \<le> 2 * (n - 1)"
  using output_loop_line_breaks [OF assms(4) [unfolded output_chain_def]] assms(1-3) by simp

lemma output_chain_paragraph_bound_witness:
  "randrange_ok (\<lambda>(s::int) n. (s mod n, s + 1)) \<and>
   wf_table (table \<lparr>order = 1, table = [([None], [(''a'', 1)])]\<rparr>) \<and>
   no_space_tokens (table \<lparr>order = 1, table = [([None], [(''a'', 1)])]\<rparr>) \<and>
   output_chain (\<lambda>(s::int) n. (s mod n, s + 1)) \<lparr>order = 1, table = [([None], [(''a'', 1)])]\<rparr> 2 0 =
     Some ('' a'' @ paragraph_break @ '' a'', 2,
       \<lparr>order = 1, table = [([None], [(''a'', 1)]), ([Some ''a''], [])]\<rparr>) \<and>
   line_breaks ('' a'' @ paragraph_break @ '' a'') \<le> 2 * (2 - 1) \<and>
   line_breaks ('' a'' @ paragraph_break @ '' a'') = 2"
proof -
  have wf: "wf_table (table \<lparr>order = 1, table = [([None], [(''a'', 1)])]\<rparr>)"
    by (simp add: wf_table_def wf_counts_def)
  have ns: "no_space_tokens (table \<lparr>order = 1, table = [([None], [(''a'', 1)])]\<rparr>)"
    by (simp add: no_space_tokens_def is_space_def py_whitespace_def)
  have "line_breaks ('' a'' @ paragraph_break @ '' a'') = 2" by simp
  with output_chain_paragraph_bound [OF randrange_ok_mod wf ns output_chain_example]
    randrange_ok_mod wf ns output_chain_example
  show ?thesis by simp
qed

text \<open>
  Claim C27. Every walk can be generated: for a well formed table and any sequence
  of tokens in which each token follows the context before it with a positive count
  (starting from the start context), some sequence of draws makes
  \<open>output(len(tokens))\<close> return exactly the detokenized sequence. With C3, the texts
  \<open>output\<close> can print without a dead end are exactly the walks of the table.
\<close>

theorem output_chain_complete:
  assumes "wf_table (table mc)" "walk (table mc) (start_prefix (order mc)) ws"
  shows "\<exists>ds mc'. output_chain draws mc (length ws) ds = Some (join ws, [], mc')"
  using output_loop_follows [OF assms, of "[]" "length ws" "[]"] by (simp add: output_chain_def)

lemma output_chain_complete_witness:
  "wf_table (table \<lparr>order = 1, table = [([None], [(''a'', 1)]), ([Some ''a''], [(''b'', 2)])]\<rparr>) \<and>
   walk [([None], [(''a'', 1)]), ([Some ''a''], [(''b'', 2)])] (start_prefix 1) [''a'', ''b''] \<and>
   (\<exists>ds mc'. output_chain draws
      \<lparr>order = 1, table = [([None], [(''a'', 1)]), ([Some ''a''], [(''b'', 2)])]\<rparr> 2 ds =
      Some ('' a b'', [], mc'))"
proof -
  have wf: "wf_table (table \<lparr>order = 1, table = [([None], [(''a'', 1)]), ([Some ''a''], [(''b'', 2)])]\<rparr>)"
    by (simp add: wf_table_def wf_counts_def)
  have wk: "walk (table \<lparr>order = 1, table = [([None], [(''a'', 1)]), ([Some ''a''], [(''b'', 2)])]\<rparr>)
      (start_prefix (order \<lparr>order = 1, table = [([None], [(''a'', 1)]), ([Some ''a''], [(''b'', 2)])]\<rparr>))
      [''a'', ''b'']"
    by (simp add: count_of_def succs_def start_prefix_def slide_def)
  have j: "join [''a'', ''b''] = '' a b''" by (simp add: join_def punctuation_def)
  from output_chain_complete [OF wf wk] wf wk j show ?thesis by (simp add: numeral_2_eq_2)
qed

end
