(* ===== verification/Session.thy ===== *)
theory Session
  imports Runs
begin

text \<open>
  A \<open>MarkovChain\<close> object over its lifetime (\<open>markov.py\<close> lines 51--78): it is
  created by \<open>MarkovChain(order)\<close> and then receives any sequence of calls of its
  public methods \<open>process_input\<close>, \<open>get\<close> and \<open>output\<close>, interleaved with the draws
  of the random source. The calls are a datatype of operations with one step
  function \<open>exec_op\<close>, which returns the method's result and the new object and
  random state, or \<open>None\<close> for a call of \<open>output\<close> that never returns. The reachable
  states are an inductive predicate; the abstract specification of the object is the
  multiset of n-grams of the texts ingested so far.
\<close>

section \<open>Definitions\<close>

datatype mc_op =
    Process_input "string list"
  | Get prefix
  | Output nat

datatype mc_result =
    Ingested
  | Word "token option"
  | Text string

definition exec_op :: "'r randrange \<Rightarrow> mc_op \<Rightarrow> markov_chain \<times> 'r \<Rightarrow>
    (mc_result \<times> markov_chain \<times> 'r) option" where
  "exec_op rr op s =
     (case s of (mc, r) \<Rightarrow>
        (case op of
           Process_input lines \<Rightarrow> Some (Ingested, process_input mc lines, r)
         | Get p \<Rightarrow> (case get rr mc p r of (w, r', mc') \<Rightarrow> Some (Word w, mc', r'))
         | Output n \<Rightarrow>
             (case output_chain rr mc n r of
                None \<Rightarrow> None
              | Some (text_out, r', mc') \<Rightarrow> Some (Text text_out, mc', r'))))"

fun exec_ops :: "'r randrange \<Rightarrow> mc_op list \<Rightarrow> markov_chain \<times> 'r \<Rightarrow>
    (mc_result list \<times> markov_chain \<times> 'r) option" where
  "exec_ops rr [] s = Some ([], s)"
| "exec_ops rr (op # ops) s =
     (case exec_op rr op s of
        None \<Rightarrow> None
      | Some (x, s') \<Rightarrow>
          (case exec_ops rr ops s' of None \<Rightarrow> None | Some (xs, s'') \<Rightarrow> Some (x # xs, s'')))"

inductive reach :: "'r randrange \<Rightarrow> markov_chain \<times> 'r \<Rightarrow> bool" for rr where
  reach_init: "reach rr (init k, r)"
| reach_step: "reach rr s \<Longrightarrow> exec_op rr op s = Some (x, s') \<Longrightarrow> reach rr s'"

text \<open>The abstract effect of an operation: the n-grams it adds to the model.\<close>

fun op_ngrams :: "nat \<Rightarrow> mc_op \<Rightarrow> (prefix \<times> token) multiset" where
  "op_ngrams k (Process_input lines) = mset (input_ngrams k lines)"
| "op_ngrams k (Get p) = {#}"
| "op_ngrams k (Output n) = {#}"

definition ingested :: "nat \<Rightarrow> mc_op list \<Rightarrow> (prefix \<times> token) multiset" where
  "ingested k ops = sum_list (map (op_ngrams k) ops)"

section \<open>Lemmas\<close>

lemma exec_ops_Cons_Some:
  "exec_ops rr (op # ops) s = Some (ys, s'') \<longleftrightarrow>
     (\<exists>x s' xs. exec_op rr op s = Some (x, s') \<and> exec_ops rr ops s' = Some (xs, s'') \<and> ys = x # xs)"
  by (auto split: option.splits)

declare exec_ops.simps(2) [simp del]

lemma exec_ops_append:
  "exec_ops rr ops s = Some (xs, s') \<Longrightarrow> exec_op rr op s' = Some (x, s'') \<Longrightarrow>
     exec_ops rr (ops @ [op]) s = Some (xs @ [x], s'')"
  by (induction ops arbitrary: s xs) (auto simp: exec_ops_Cons_Some)

lemma ingested_simps [simp]:
  "ingested k [] = {#}"
  "ingested k (op # ops) = op_ngrams k op + ingested k ops"
  by (simp_all add: ingested_def)

text \<open>What one call does to the model: the order is kept, the two invariants of the
  table are kept, and the counts grow by the operation's n-grams.\<close>

lemma exec_op_state:
  assumes "exec_op rr op (mc, r) = Some (x, mc', r')"
  shows "order mc' = order mc \<and>
    (wf_table (table mc) \<longrightarrow> wf_table (table mc')) \<and>
    (no_space_tokens (table mc) \<longrightarrow> no_space_tokens (table mc')) \<and>
    count_of (table mc') = (\<lambda>q v. count_of (table mc) q v + int (count (op_ngrams (order mc) op) (q, v)))"
proof (cases op)
  case (Process_input lines)
  with assms have mc': "mc' = process_input mc lines" by (simp add: exec_op_def)
  have "wf_table (table mc) \<Longrightarrow> wf_table (table (process_input mc lines))"
    by (simp add: process_input_def wf_table_fold_process_paragraph)
  with mc' Process_input show ?thesis
    by (simp add: fun_eq_iff count_of_process_input no_space_tokens_process_input)
next
  case (Get p)
  obtain w r1 mc1 where g: "get rr mc p r = (w, r1, mc1)" by (rule prod_cases3)
  with assms Get have "mc' = mc1" by (simp add: exec_op_def)
  with g show ?thesis
    using get_state [OF g] get_no_space_tokens [OF g] count_of_cong [of "table mc1" "table mc"] Get
    by simp
next
  case (Output n)
  with assms obtain text_out where ol: "output_loop rr n (start_prefix (order mc)) [] r mc = Some (text_out, r', mc')"
    by (auto simp: exec_op_def output_chain_def split: option.splits)
  from output_loop_state [OF ol] output_loop_no_space_tokens [OF ol] Output show ?thesis
    using count_of_cong [of "table mc'" "table mc"] by simp
qed

lemma exec_ops_state:
  "exec_ops rr ops (mc, r) = Some (xs, mc', r') \<Longrightarrow>
    order mc' = order mc \<and>
    (wf_table (table mc) \<longrightarrow> wf_table (table mc')) \<and>
    (no_space_tokens (table mc) \<longrightarrow> no_space_tokens (table mc')) \<and>
    count_of (table mc') = (\<lambda>q v. count_of (table mc) q v + int (count (ingested (order mc) ops) (q, v)))"
proof (induction ops arbitrary: mc r xs)
  case Nil
  then show ?case by simp
next
  case (Cons op ops)
  from Cons.prems obtain x mc1 r1 xs' where s1: "exec_op rr op (mc, r) = Some (x, mc1, r1)"
    and rest: "exec_ops rr ops (mc1, r1) = Some (xs', mc', r')"
    by (auto simp: exec_ops_Cons_Some)
  from exec_op_state [OF s1] Cons.IH [OF rest] show ?case by (simp add: fun_eq_iff)
qed

lemma wf_table_init [simp]: "wf_table (table (init k))"
  by (simp add: init_def wf_table_def)

lemma order_init [simp]: "order (init k) = k"
  by (simp add: init_def)

text \<open>Reachability is execution of a sequence of calls from a new object.\<close>

lemma reach_exec_ops: "reach rr s \<Longrightarrow> \<exists>k r ops xs. exec_ops rr ops (init k, r) = Some (xs, s)"
proof (induction rule: reach.induct)
  case (reach_init k r)
  have "exec_ops rr [] (init k, r) = Some ([], init k, r)" by simp
  then show ?case by blast
next
  case (reach_step s op x s')
  then obtain k r ops xs where "exec_ops rr ops (init k, r) = Some (xs, s)" by blast
  from exec_ops_append [OF this reach_step.hyps(2)] show ?case by blast
qed

lemma exec_ops_reach: "exec_ops rr ops s = Some (xs, s') \<Longrightarrow> reach rr s \<Longrightarrow> reach rr s'"
proof (induction ops arbitrary: s xs)
  case Nil
  then show ?case by simp
next
  case (Cons op ops)
  from Cons.prems(1) obtain x s1 xs' where "exec_op rr op s = Some (x, s1)"
    and "exec_ops rr ops s1 = Some (xs', s')" by (auto simp: exec_ops_Cons_Some)
  with Cons.IH Cons.prems(2) reach.reach_step show ?case by blast
qed

lemma ingested_start:
  "ingested k ops \<noteq> {#} \<Longrightarrow> \<exists>w. (start_prefix k, w) \<in># ingested k ops"
proof (induction ops)
  case Nil
  then show ?case by simp
next
  case (Cons op ops)
  show ?case
  proof (cases "op_ngrams k op = {#}")
    case True
    with Cons show ?thesis by simp
  next
    case False
    then obtain lines where op: "op = Process_input lines" and "input_ngrams k lines \<noteq> []"
      by (cases op) simp_all
    from input_ngrams_start [OF this(2)] op show ?thesis by auto
  qed
qed

text \<open>A concrete session: ingest the paragraph \<open>a\<close>, read the start context, ingest it again.\<close>

lemma session_example:
  "exec_ops draws [Process_input [''a'', ''''], Get [None], Process_input [''a'', '''']] (init 1, []) =
     Some ([Ingested, Word (Some ''a''), Ingested], \<lparr>order = 1, table = [([None], [(''a'', 2)])]\<rparr>, [])"
proof -
  have p: "get_paragraphs [''a'', ''''] = ['' a'']"
    by (simp add: get_paragraphs_def py_strip_ws_def py_strip_by_def is_space_def py_whitespace_def)
  have t: "tokenize '' a'' = [''a'']"
    by (simp add: tokenize_def py_split_def is_space_def py_whitespace_def clause_parts_def
        punctuation_def py_endswith_def simplify_def py_strip_def py_strip_by_def)
  have pi1: "process_input (init 1) [''a'', ''''] = \<lparr>order = 1, table = [([None], [(''a'', 1)])]\<rparr>"
    by (simp add: process_input_def p t process_paragraph_def init_def start_prefix_def
        table_incr_def)
  have g: "get draws \<lparr>order = 1, table = [([None], [(''a'', 1)])]\<rparr> [None] [] =
      (Some ''a'', [], \<lparr>order = 1, table = [([None], [(''a'', 1)])]\<rparr>)"
    by (simp add: get_def table_touch_def succs_def choice_def total_weight_def)
  have pi2: "process_input \<lparr>order = 1, table = [([None], [(''a'', 1)])]\<rparr> [''a'', ''''] =
      \<lparr>order = 1, table = [([None], [(''a'', 2)])]\<rparr>"
    by (simp add: process_input_def p t process_paragraph_def start_prefix_def table_incr_def)
  show ?thesis by (simp add: exec_ops.simps exec_op_def pi1 [simplified] g [simplified] pi2 [simplified])
qed

lemma session_example_ingested:
  "ingested 1 [Process_input [''a'', ''''], Get [None], Process_input [''a'', '''']] =
     {#([None], ''a''), ([None], ''a'')#}"
proof -
  have p: "get_paragraphs [''a'', ''''] = ['' a'']"
    by (simp add: get_paragraphs_def py_strip_ws_def py_strip_by_def is_space_def py_whitespace_def)
  have t: "tokenize '' a'' = [''a'']"
    by (simp add: tokenize_def py_split_def is_space_def py_whitespace_def clause_parts_def
        punctuation_def py_endswith_def simplify_def py_strip_def py_strip_by_def)
  show ?thesis by (simp add: input_ngrams_def p t start_prefix_def)
qed


section \<open>Properties of a session\<close>

text \<open>
  Claim C28. Invariant of the object: in every state reachable from
  \<open>MarkovChain(order)\<close> by any sequence of calls of \<open>process_input\<close>, \<open>get\<close> and
  \<open>output\<close>, the table is well formed (distinct keys, positive counts) and no stored
  token contains whitespace. Proved by rule induction over the reachable states.
\<close>

theorem reach_invariant:
  assumes "reach rr s"
  shows "wf_table (table (fst s)) \<and> no_space_tokens (table (fst s))"
  using assms
proof (induction rule: reach.induct)
  case (reach_init k r)
  then show ?case by simp
next
  case (reach_step s op x s')
  obtain mc r where "s = (mc, r)" by (cases s)
  moreover obtain mc' r' where "s' = (mc', r')" by (cases s')
  ultimately show ?case using reach_step exec_op_state [of rr op mc r x mc' r'] by simp
qed

lemma reach_invariant_witness:
  "reach draws (\<lparr>order = 1, table = [([None], [(''a'', 2)])]\<rparr>, []) \<and>
   wf_table [([None], [(''a'', 2)])] \<and> no_space_tokens [([None], [(''a'', 2)])]"
proof -
  have r: "reach draws (\<lparr>order = 1, table = [([None], [(''a'', 2)])]\<rparr>, [])"
    using exec_ops_reach [OF session_example reach.reach_init] .
  from r reach_invariant [OF r] show ?thesis by simp
qed

text \<open>
  Claim C29. Refinement of the object by its abstract specification: after any
  sequence of calls from \<open>MarkovChain(k)\<close> that returns, the order is still \<open>k\<close> and
  every count of the table is the multiplicity of that n-gram among the n-grams of
  the texts ingested, in whatever order and with whatever \<open>get\<close> and \<open>output\<close> calls
  in between (reads never change a count).
\<close>

theorem exec_ops_refines:
  assumes "exec_ops rr ops (init k, r) = Some (xs, mc, r')"
  shows "order mc = k \<and> count_of (table mc) q v = int (count (ingested k ops) (q, v))"
  using exec_ops_state [OF assms] by (simp add: init_def)

lemma exec_ops_refines_witness:
  "exec_ops draws [Process_input [''a'', ''''], Get [None], Process_input [''a'', '''']] (init 1, []) =
     Some ([Ingested, Word (Some ''a''), Ingested], \<lparr>order = 1, table = [([None], [(''a'', 2)])]\<rparr>, []) \<and>
   count_of [([None], [(''a'', 2)])] [None] ''a'' =
     int (count (ingested 1 [Process_input [''a'', ''''], Get [None], Process_input [''a'', '''']])
       ([None], ''a'')) \<and>
   count_of [([None], [(''a'', 2)])] [None] ''a'' = 2"
proof -
  from exec_ops_refines [OF session_example, of "[None]" "''a''"] session_example
    session_example_ingested
  show ?thesis by (simp add: count_of_def succs_def)
qed



end
