(* ===== verification/Recursion.thy ===== *)
theory Recursion
  imports Runs
begin

text \<open>
  \<open>output\<close> (\<open>markov.py\<close> lines 69--78) under CPython's recursion limit. Every dead end
  makes line 75 call \<open>self.output(length - len(result))\<close> one frame deeper, and
  CPython raises \<open>RecursionError\<close> once the stack exceeds \<open>sys.getrecursionlimit()\<close>
  (1000 by default, of which the module and the first call of \<open>output\<close> already use a
  few frames). The exception is not caught, so it propagates through every pending
  \<open>output\<close> frame and ends the script before anything is printed.

  \<open>output_py\<close> is \<open>output_loop\<close> with one more argument, the budget of further nested
  calls the interpreter admits; a dead end with no budget left raises, and an error
  of a nested call is the error of the caller. The budget makes the recursion finite,
  so \<open>output_py\<close> always returns (or raises); with a budget of at least
  \<open>length - 1\<close> it returns exactly what \<open>output_loop\<close> returns, and with less it may
  raise although \<open>output_loop\<close> returns.
\<close>

section \<open>Definitions\<close>

datatype py_error = RecursionError

partial_function (option) output_py :: "nat \<Rightarrow> 'r randrange \<Rightarrow> nat \<Rightarrow> prefix \<Rightarrow>
    token list \<Rightarrow> 'r \<Rightarrow> markov_chain \<Rightarrow> (py_error + string \<times> 'r \<times> markov_chain) option" where
  "output_py depth randrange n prefix result r mc =
     (if length result < n then
        (case get randrange mc prefix r of
           (None, r', mc') \<Rightarrow>
             (if depth = 0 then Some (Inl RecursionError)
              else Option.bind
                (output_py (depth - 1) randrange (n - length result) (start_prefix (order mc')) [] r' mc')
                (\<lambda>v. Some (case v of
                            Inl e \<Rightarrow> Inl e
                          | Inr (rest, r'', mc'') \<Rightarrow> Inr (join result @ paragraph_break @ rest, r'', mc''))))
         | (Some word, r', mc') \<Rightarrow>
             output_py depth randrange n (slide prefix word) (result @ [word]) r' mc')
      else Some (Inr (join result, r, mc)))"

definition output_chain_py :: "nat \<Rightarrow> 'r randrange \<Rightarrow> markov_chain \<Rightarrow> nat \<Rightarrow> 'r \<Rightarrow>
    (py_error + string \<times> 'r \<times> markov_chain) option" where
  "output_chain_py depth randrange mc n r =
     output_py depth randrange n (start_prefix (order mc)) [] r mc"

section \<open>Lemmas\<close>

lemma bind_Inr_Some:
  "Option.bind x (\<lambda>v. Some (case v of Inl e \<Rightarrow> Inl e | Inr (rest, r'', mc'') \<Rightarrow> Inr (g rest, r'', mc''))) =
     Some (Inr y) \<Longrightarrow> \<exists>z. x = Some (Inr z) \<and> y = (g (fst z), snd z)"
  by (cases x) (auto split: sum.splits prod.splits)

text \<open>The recursion is finite: every iteration appends a token or spends budget.\<close>

lemma output_py_total: "\<exists>v. output_py d rr n prefix res r mc = Some v"
proof (induction d arbitrary: n prefix res r mc)
  case 0
  show ?case
  proof (induction "n - length res" arbitrary: prefix res r mc rule: less_induct)
    case less
    obtain w r1 mc1 where g: "get rr mc prefix r = (w, r1, mc1)" by (rule prod_cases3)
    show ?case
    proof (cases "length res < n")
      case True
      show ?thesis
      proof (cases w)
        case None
        with True g show ?thesis by (simp add: output_py.simps [of 0 rr n prefix res r mc])
      next
        case (Some word)
        from True have "n - length (res @ [word]) < n - length res" by simp
        from less [OF this] obtain v where
          "output_py 0 rr n (slide prefix word) (res @ [word]) r1 mc1 = Some v" by blast
        with True g Some show ?thesis by (simp add: output_py.simps [of 0 rr n prefix res r mc])
      qed
    qed (simp add: output_py.simps [of 0 rr n prefix res r mc])
  qed
next
  case (Suc d)
  show ?case
  proof (induction "n - length res" arbitrary: prefix res r mc rule: less_induct)
    case less
    obtain w r1 mc1 where g: "get rr mc prefix r = (w, r1, mc1)" by (rule prod_cases3)
    show ?case
    proof (cases "length res < n")
      case True
      show ?thesis
      proof (cases w)
        case None
        from Suc.IH obtain v where
          "output_py d rr (n - length res) (start_prefix (order mc1)) [] r1 mc1 = Some v" by blast
        with True g None show ?thesis by (simp add: output_py.simps [of "Suc d" rr n prefix res r mc])
      next
        case (Some word)
        from True have "n - length (res @ [word]) < n - length res" by simp
        from less [OF this] obtain v where
          "output_py (Suc d) rr n (slide prefix word) (res @ [word]) r1 mc1 = Some v" by blast
        with True g Some show ?thesis by (simp add: output_py.simps [of "Suc d" rr n prefix res r mc])
      qed
    qed (simp add: output_py.simps [of "Suc d" rr n prefix res r mc])
  qed
qed


text \<open>A run that returns a text under the limit is a run of \<open>output_loop\<close>.\<close>

lemma output_py_Inr:
  assumes ret: "output_py d rr n prefix res r mc = Some v"
  shows "\<forall>y. v = Inr y \<longrightarrow> output_loop rr n prefix res r mc = Some y"
proof (rule output_py.raw_induct [where P = "\<lambda>d rr n prefix res r mc v.
    \<forall>y. v = Inr y \<longrightarrow> output_loop rr n prefix res r mc = Some y", OF _ ret])
  fix f d rr n prefix res r mc v
  assume IH: "\<And>d rr n prefix res r mc v. f d rr n prefix res r mc = Some v \<Longrightarrow>
      \<forall>y. v = Inr y \<longrightarrow> output_loop rr n prefix res r mc = Some y"
    and step: "(if length res < n then
        (case get rr mc prefix r of
           (None, r', mc') \<Rightarrow>
             (if d = 0 then Some (Inl RecursionError)
              else Option.bind (f (d - 1) rr (n - length res) (start_prefix (order mc')) [] r' mc')
                (\<lambda>v. Some (case v of
                            Inl e \<Rightarrow> Inl e
                          | Inr (rest, r'', mc'') \<Rightarrow> Inr (join res @ paragraph_break @ rest, r'', mc''))))
         | (Some word, r', mc') \<Rightarrow> f d rr n (slide prefix word) (res @ [word]) r' mc')
      else Some (Inr (join res, r, mc))) = Some v"
  show "\<forall>y. v = Inr y \<longrightarrow> output_loop rr n prefix res r mc = Some y"
  proof (intro allI impI)
    fix y
    assume v: "v = Inr y"
    obtain w r1 mc1 where g: "get rr mc prefix r = (w, r1, mc1)" by (rule prod_cases3)
    show "output_loop rr n prefix res r mc = Some y"
    proof (cases "length res < n")
      case False
      with step v show ?thesis by (simp add: output_loop.simps [of rr n prefix res r mc])
    next
      case True
      show ?thesis
      proof (cases w)
        case None
        with True step g v have "d \<noteq> 0" by (auto split: if_splits)
        with True step g v None have "Option.bind (f (d - 1) rr (n - length res) (start_prefix (order mc1)) [] r1 mc1)
            (\<lambda>v. Some (case v of Inl e \<Rightarrow> Inl e
                 | Inr (rest, r'', mc'') \<Rightarrow> Inr (join res @ paragraph_break @ rest, r'', mc''))) = Some (Inr y)"
          by simp
        from bind_Inr_Some [OF this] obtain z where
          rec: "f (d - 1) rr (n - length res) (start_prefix (order mc1)) [] r1 mc1 = Some (Inr z)"
          and y: "y = (join res @ paragraph_break @ fst z, snd z)" by blast
        from IH [OF rec] have "output_loop rr (n - length res) (start_prefix (order mc1)) [] r1 mc1 = Some z"
          by simp
        with True g None y show ?thesis
          by (simp add: output_loop.simps [of rr n prefix res r mc] split: prod.split)
      next
        case (Some word)
        with True step g v have "f d rr n (slide prefix word) (res @ [word]) r1 mc1 = Some (Inr y)"
          by simp
        from IH [OF this] True g Some show ?thesis
          by (simp add: output_loop.simps [of rr n prefix res r mc])
      qed
    qed
  qed
qed

text \<open>
  A run of \<open>output_loop\<close> that returns is a run under the limit when the budget
  covers its restarts: a run that has collected tokens restarts at most once per
  remaining token, and one that has not needs one call less.
\<close>

lemma output_loop_py:
  assumes ret: "output_loop rr n prefix res r mc = Some y"
  shows "randrange_ok rr \<longrightarrow> wf_table (table mc) \<longrightarrow>
    prefix = foldl slide (start_prefix (order mc)) res \<longrightarrow>
    (res = [] \<longrightarrow> 0 < n \<longrightarrow> succs (table mc) (start_prefix (order mc)) \<noteq> []) \<and>
    (\<forall>d. n - length res \<le> d + (if res = [] then 1 else 0) \<longrightarrow>
       output_py d rr n prefix res r mc = Some (Inr y))"
  using ret
proof (induction rule: output_loop_induct)
  case (stop rr n prefix res r mc)
  then show ?case by (auto simp: output_py.simps [of _ rr n _ res r mc])
next
  case (dead rr n prefix res r mc r' mc' z)
  note st = get_state [OF dead.hyps(2)]
  show ?case
  proof (intro impI)
    assume rr: "randrange_ok rr" and wf: "wf_table (table mc)"
      and pf: "prefix = foldl slide (start_prefix (order mc)) res"
    from dead.IH rr st(3) [OF wf] dead.hyps(1)
    have live: "succs (table mc') (start_prefix (order mc')) \<noteq> []"
      and rec: "\<And>d. n - length res \<le> d + 1 \<Longrightarrow>
        output_py d rr (n - length res) (start_prefix (order mc')) [] r' mc' = Some (Inr z)"
      by simp_all
    have ne: "res \<noteq> []"
    proof
      assume "res = []"
      with pf live st(1,2) have "succs (table mc) prefix \<noteq> []" by simp
      from get_live [OF rr wf this, of r] dead.hyps(2) show False by auto
    qed
    have "output_py d rr n prefix res r mc = Some (Inr (join res @ paragraph_break @ fst z, snd z))"
      if d: "n - length res \<le> d" for d
    proof -
      from d dead.hyps(1) obtain d' where d': "d = Suc d'" by (cases d) simp_all
      from d d' have "n - length res \<le> d' + 1" by simp
      from rec [OF this] dead.hyps d' show ?thesis
        by (simp add: output_py.simps [of "Suc d'" rr n prefix res r mc] split: prod.split)
    qed
    with ne show "(res = [] \<longrightarrow> 0 < n \<longrightarrow> succs (table mc) (start_prefix (order mc)) \<noteq> []) \<and>
        (\<forall>d. n - length res \<le> d + (if res = [] then 1 else 0) \<longrightarrow>
          output_py d rr n prefix res r mc = Some (Inr (join res @ paragraph_break @ fst z, snd z)))"
      by simp
  qed
next
  case (live rr n prefix res r mc r' mc' word y)
  note st = get_state [OF live.hyps(2)]
  show ?case
  proof (intro impI)
    assume rr: "randrange_ok rr" and wf: "wf_table (table mc)"
      and pf: "prefix = foldl slide (start_prefix (order mc)) res"
    from live.IH rr st(1) st(3) [OF wf] pf
    have rec: "\<And>d. n - Suc (length res) \<le> d \<Longrightarrow>
        output_py d rr n (slide prefix word) (res @ [word]) r' mc' = Some (Inr y)" by simp
    have "output_py d rr n prefix res r mc = Some (Inr y)"
      if d: "n - length res \<le> d + (if res = [] then 1 else 0)" for d
    proof -
      from d have "n - Suc (length res) \<le> d" by (cases res) simp_all
      from rec [OF this] live.hyps show ?thesis
        by (simp add: output_py.simps [of d rr n prefix res r mc])
    qed
    moreover have "res = [] \<longrightarrow> succs (table mc) (start_prefix (order mc)) \<noteq> []"
      using get_Some_live [OF live.hyps(2)] pf by auto
    ultimately show "(res = [] \<longrightarrow> 0 < n \<longrightarrow> succs (table mc) (start_prefix (order mc)) \<noteq> []) \<and>
        (\<forall>d. n - length res \<le> d + (if res = [] then 1 else 0) \<longrightarrow>
          output_py d rr n prefix res r mc = Some (Inr y))" by blast
  qed
qed


text \<open>
  A table in which every successor of the start context is a dead end makes every
  segment one token long, so each token after the first costs one nested call.
\<close>

lemma output_py_first_segment:
  assumes rr: "randrange_ok rr" and wf: "wf_table (table mc)"
    and live: "succs (table mc) (start_prefix (order mc)) \<noteq> []"
    and dead: "\<And>w. succs (table mc) (slide (start_prefix (order mc)) w) = []"
    and n: "1 < n"
  shows "\<exists>r1 mc2. order mc2 = order mc \<and> succs (table mc2) = succs (table mc) \<and>
    wf_table (table mc2) \<and>
    (d = 0 \<longrightarrow> output_py d rr n (start_prefix (order mc)) [] r mc = Some (Inl RecursionError)) \<and>
    (\<forall>e. 0 < d \<longrightarrow> output_py (d - 1) rr (n - 1) (start_prefix (order mc)) [] r1 mc2 = Some (Inl e) \<longrightarrow>
       output_py d rr n (start_prefix (order mc)) [] r mc = Some (Inl e))"
proof -
  let ?s = "start_prefix (order mc)"
  obtain w r1 mc1 where g1: "get rr mc ?s r = (Some w, r1, mc1)"
    using get_live [OF rr wf live] by blast
  note st1 = get_state [OF g1]
  have d1: "succs (table mc1) (slide ?s w) = []" using dead st1(2) by simp
  define mc2 where "mc2 = mc1\<lparr>table := table_touch (table mc1) (slide ?s w)\<rparr>"
  have g2: "get rr mc1 (slide ?s w) r1 = (None, r1, mc2)"
    unfolding mc2_def by (rule get_dead [OF d1])
  note st2 = get_state [OF g2]
  have run: "output_py d rr n ?s [] r mc = output_py d rr n (slide ?s w) [w] r1 mc1"
    using n g1 by (simp add: output_py.simps [of d rr n ?s "[]" r mc])
  have run2: "output_py d rr n (slide ?s w) [w] r1 mc1 =
      (if d = 0 then Some (Inl RecursionError)
       else Option.bind (output_py (d - 1) rr (n - 1) ?s [] r1 mc2)
         (\<lambda>v. Some (case v of Inl e \<Rightarrow> Inl e
              | Inr (rest, r'', mc'') \<Rightarrow> Inr (join [w] @ paragraph_break @ rest, r'', mc''))))"
    using n g2 st1(1) st2(1) by (simp add: output_py.simps [of d rr n "slide ?s w" "[w]" r1 mc1])
  have "wf_table (table mc2)" using st2(3) st1(3) wf by simp
  with st1 st2 run run2 show ?thesis by (intro exI [of _ r1] exI [of _ mc2]) auto
qed

lemma output_py_recursion_error:
  assumes "randrange_ok rr" "wf_table (table mc)"
    and "succs (table mc) (start_prefix (order mc)) \<noteq> []"
    and "\<And>w. succs (table mc) (slide (start_prefix (order mc)) w) = []"
    and "d + 1 < n"
  shows "output_py d rr n (start_prefix (order mc)) [] r mc = Some (Inl RecursionError)"
  using assms(2-5)
proof (induction d arbitrary: n r mc)
  case 0
  from output_py_first_segment [OF assms(1) "0.prems"(1-3), of n 0 r] "0.prems"(4) show ?case
    by auto
next
  case (Suc d)
  from output_py_first_segment [OF assms(1) Suc.prems(1-3), of n "Suc d" r] Suc.prems(4)
  obtain r1 mc2 where o: "order mc2 = order mc" and s: "succs (table mc2) = succs (table mc)"
    and wf2: "wf_table (table mc2)"
    and step: "\<And>e. output_py d rr (n - 1) (start_prefix (order mc)) [] r1 mc2 = Some (Inl e) \<Longrightarrow>
       output_py (Suc d) rr n (start_prefix (order mc)) [] r mc = Some (Inl e)"
    by auto
  from Suc.prems(2,3) o s have "succs (table mc2) (start_prefix (order mc2)) \<noteq> []"
    "\<And>w. succs (table mc2) (slide (start_prefix (order mc2)) w) = []" by simp_all
  from Suc.IH [OF wf2 this] Suc.prems(4) o
  have "output_py d rr (n - 1) (start_prefix (order mc)) [] r1 mc2 = Some (Inl RecursionError)"
    by simp
  then show ?case by (rule step)
qed

section \<open>Properties\<close>

text \<open>
  Claim C33. \<open>output\<close> under the recursion limit refines the model exactly when the
  budget suffices: with a random source that draws in range and a well formed table,
  if the interpreter admits at least \<open>length - 1\<close> nested calls, \<open>output(length)\<close>
  returns a text under the limit exactly when the unbounded model returns it. So C3,
  C4 and C26 describe what CPython prints whenever the budget covers the length.
\<close>

theorem output_chain_py_refines:
  assumes "randrange_ok rr" "wf_table (table mc)" "n \<le> d + 1"
  shows "output_chain_py d rr mc n r = Some (Inr y) \<longleftrightarrow> output_chain rr mc n r = Some y"
proof
  assume "output_chain_py d rr mc n r = Some (Inr y)"
  from output_py_Inr [OF this [unfolded output_chain_py_def]] show "output_chain rr mc n r = Some y"
    by (simp add: output_chain_def)
next
  assume "output_chain rr mc n r = Some y"
  from output_loop_py [OF this [unfolded output_chain_def]] assms
  show "output_chain_py d rr mc n r = Some (Inr y)" by (simp add: output_chain_py_def)
qed

lemma output_chain_py_refines_witness:
  "randrange_ok (\<lambda>(s::int) n. (s mod n, s + 1)) \<and>
   wf_table (table \<lparr>order = 1, table = [([None], [(''a'', 1)])]\<rparr>) \<and> (2::nat) \<le> 1 + 1 \<and>
   output_chain_py 1 (\<lambda>(s::int) n. (s mod n, s + 1)) \<lparr>order = 1, table = [([None], [(''a'', 1)])]\<rparr> 2 0 =
     Some (Inr ('' a'' @ paragraph_break @ '' a'', 2,
       \<lparr>order = 1, table = [([None], [(''a'', 1)]), ([Some ''a''], [])]\<rparr>)) \<and>
   output_chain_py 0 (\<lambda>(s::int) n. (s mod n, s + 1)) \<lparr>order = 1, table = [([None], [(''a'', 1)])]\<rparr> 2 0 =
     Some (Inl RecursionError)"
proof -
  let ?mc = "\<lparr>order = 1, table = [([None], [(''a'', 1)])]\<rparr> :: markov_chain"
  have wf: "wf_table (table ?mc)" by (simp add: wf_table_def wf_counts_def)
  have n: "(2::nat) \<le> 1 + 1" by simp
  have live: "succs (table ?mc) (start_prefix (order ?mc)) \<noteq> []"
    by (simp add: succs_def start_prefix_def)
  have dead: "succs (table ?mc) (slide (start_prefix (order ?mc)) w) = []" for w
    by (simp add: succs_def start_prefix_def slide_def)
  have err: "output_chain_py 0 (\<lambda>(s::int) n. (s mod n, s + 1)) ?mc 2 0 = Some (Inl RecursionError)"
    unfolding output_chain_py_def
    by (rule output_py_recursion_error [OF randrange_ok_mod wf live dead]) simp
  from output_chain_py_refines [OF randrange_ok_mod wf n, of 0] output_chain_example
    randrange_ok_mod wf err
  show ?thesis by simp
qed

end
