(* ===== verification/Spec2Isabelle.thy ===== *)
theory Spec2Isabelle
  imports Session Recursion
begin

text \<open>
  \<^bold>\<open>A verification development of markov-mimic (\<open>src/markov.py\<close>).\<close>

  \<^bold>\<open>The program.\<close> \<open>markov.py\<close> builds an n-gram model of text and samples from it.
  Its parts, leaf first: the weighted sampler \<open>choice\<close> (lines 4--13); the paragraph
  splitter \<open>get_paragraphs\<close> (15--23); the tokenizer \<open>clause_parts\<close>, \<open>simplify\<close>,
  \<open>tokenize\<close> (25--40); the detokenizer \<open>join\<close> (42--49); the class
  \<open>MarkovChain\<close> (51--78) with its write path \<open>process_input\<close> and its read path
  \<open>get\<close> and \<open>output\<close>; and the module-level script (81--90). Data flows from the
  lines of a file through \<open>get_paragraphs\<close> and \<open>tokenize\<close> into the nested
  \<open>defaultdict\<close> \<open>table\<close>, keyed by the tuple of the last \<open>order\<close> tokens (\<open>None\<close>
  padding the start of each paragraph); \<open>output\<close> walks the table with \<open>choice\<close>
  and renders the tokens with \<open>join\<close>, restarting a paragraph at each dead end.

  \<^bold>\<open>Theories.\<close>
  \<^item> \<open>Prelude\<close>: the rule collections \<open>py_str_simps\<close> and \<open>table_simps\<close>; the type
    names \<open>token\<close>, \<open>prefix\<close> (a list of \<open>token option\<close>, \<open>None\<close> the start marker),
    \<open>counts\<close> and \<open>table\<close> (association lists in insertion order, the iteration order
    of a Python dict); the random source \<open>'r randrange\<close> with its only assumption
    \<open>randrange_ok\<close> (a draw for \<open>total > 0\<close> lies in \<open>[0, total)\<close>); lemmas on
    \<open>AList.update_with_aux\<close>, which is the \<open>defaultdict\<close> write \<open>d[k] = f(d[k])\<close>.
  \<^item> \<open>PyStr\<close>: the CPython \<open>str\<close> methods the program calls (\<open>split()\<close>,
    \<open>split(sep)\<close>, \<open>join\<close>, \<open>strip\<close>, \<open>endswith\<close>, \<open>in\<close>), on code points below 256,
    with the split/join round-trip lemma and the whitespace-splitting laws.
  \<^item> \<open>Sampler\<close>: \<open>choice\<close> as \<open>total_weight\<close>, one draw, and the scan
    \<open>choice_scan\<close>; the exact distribution theorem (C10), proved through the
    counting lemma \<open>choice_scan_card\<close> that the generator shares, and the dead-end
    signal (C11).
  \<^item> \<open>Paragraphs\<close>: \<open>get_paragraphs\<close> with its buffer as accumulator; equivalence with
    a split at blank lines (C12) and the dropped last paragraph (C13).
  \<^item> \<open>Tokenizer\<close>: \<open>clause_punct\<close> (the loop over \<open>":;!,."\<close>), \<open>clause_parts\<close>,
    \<open>simplify\<close>, \<open>tokenize\<close>; the closed form of the punctuation branch (C17), no
    whitespace in tokens (C18), no quotes at token ends (C19), and the closed form of
    the dash branch through the reference \<open>dash_parts\<close> (C24).
  \<^item> \<open>Detokenizer\<close>: \<open>join\<close> as its accumulating loop \<open>join_acc\<close>; its substring
    attachment rule (C20), and the round trip
    \<open>tokenize (join ws) = ws\<close> for plain sentences (C21).
  \<^item> \<open>Chain\<close>: the record \<open>markov_chain\<close> (\<open>order\<close>, \<open>table\<close>), \<open>init\<close>,
    \<open>start_prefix\<close> (\<open>[None] * order\<close>), \<open>slide\<close> (\<open>prefix[1:] + [word]\<close>),
    \<open>table_incr\<close> (\<open>table[tuple(prefix)][word] += 1\<close>), the loops \<open>process_tokens\<close>
    and \<open>process_paragraph\<close>, and \<open>process_input\<close>. The abstraction is the count
    function \<open>count_of\<close> against the multiset of n-grams \<open>input_ngrams\<close>:
    refinement (C5), doubling (C6), commutation (C7), the invariant \<open>wf_table\<close>
    (C8), the key-length invariant (C9), and paragraph isolation: the closed form
    of the n-grams of a paragraph as windows of the padded paragraph (C22); with
    order 0 the table is a bigram model with a start distribution (C32). The
    invariant \<open>no_space_tokens\<close> (stored tokens contain no whitespace) is kept by
    ingestion.
  \<^item> \<open>Generator\<close>: \<open>table_touch\<close> (the \<open>defaultdict\<close> read that stores an empty
    dict), \<open>get\<close>, \<open>output_loop\<close> (the \<open>while\<close> loop and the recursive restart of
    \<open>output\<close>) and \<open>output_chain\<close>, with the fixpoint-induction rule
    \<open>output_loop_induct\<close> (one case per branch of the loop body) that every
    property of returned runs is proved with. Termination (C1), divergence at a dead
    start (C2), the shape of the result as segments that are walks of the table (C3),
    and preservation of the counts (C4); one step of \<open>get\<close> picks a token in
    proportion to its count (C23).
  \<^item> \<open>Runs\<close>: whole runs of \<open>output\<close>. The paragraph-break bound (C26): a returned
    text of \<open>output(n)\<close> has at most \<open>n - 1\<close> breaks, hence at most \<open>n - 1\<close>
    nested calls, on a table whose tokens contain no whitespace (the invariant
    \<open>no_space_tokens\<close> of \<open>Chain\<close>); and completeness (C27): under the replayed
    random source \<open>draws\<close>, every walk of the table is printed for some list of
    draws, the converse of C3.
  \<^item> \<open>Session\<close>: the object over its lifetime. The public methods are the datatype
    \<open>mc_op\<close> (\<open>Process_input\<close>, \<open>Get\<close>, \<open>Output\<close>) with the step function
    \<open>exec_op\<close>, returning the method's result \<open>mc_result\<close>; \<open>exec_ops\<close> runs a
    sequence of calls and the inductive \<open>reach\<close> gives the reachable states
    (equivalently, the states some sequence of calls reaches from \<open>init k\<close>). The
    abstract specification is the multiset \<open>ingested\<close> of the n-grams of the texts
    ingested. The invariant over reachable states by rule induction (C28), the
    refinement of every sequence of calls by the multiset (C29), and liveness of
    \<open>output\<close> once a token has been ingested (C30).
  \<^item> \<open>Recursion\<close>: \<open>output\<close> under CPython's recursion limit. \<open>output_py\<close> is the
    loop of \<open>output_loop\<close> with a budget of further nested calls; a dead end with
    no budget left gives \<open>Inl RecursionError\<close> of the error type \<open>py_error\<close>, which
    every pending call passes on. It always halts (the lemma \<open>output_py_total\<close>),
    agrees exactly with \<open>output_loop\<close> when the budget is at least
    \<open>length - 1\<close> (C33), and raises when every segment is one token long and the
    length exceeds the budget plus one.
  \<^item> \<open>Spec2Isabelle\<close> (this theory): the script as \<open>script_ingest\<close> (also a
    session of four \<open>Process_input\<close> calls), \<open>script_output\<close> and
    \<open>script_print\<close> (the text \<open>print\<close> writes), \<open>script_output_py\<close> (the
    script under the recursion limit), and the properties of the whole program:
    its counts (C14), that it always halts in CPython (C15), that the unbounded model
    diverges without tokens (C16), at most 10000 printed newlines (C31), and that it
    raises \<open>RecursionError\<close> for every budget below 4999 on texts whose paragraphs
    have one token each (C34); the tokens of a paragraph as \<open>get_paragraphs\<close>
    renders it are the tokens of its lines (C25).

  \<^bold>\<open>Modelling choices.\<close> State is passed explicitly: \<open>process_input\<close> and \<open>get\<close>
  return the updated record. \<open>output\<close> may recurse forever, so it is a
  \<open>partial_function (option)\<close>: \<open>None\<close> is a run that does not return, and
  termination is proved as \<open>\<exists>y. \<dots> = Some y\<close> under its conditions (C1, C30)
  rather than assumed. CPython bounds the recursion; that bound is the budget
  argument of \<open>output_py\<close>, whose theorems hold for every budget, so no value of the
  interpreter's limit is built in (the default limit of 1000 leaves a little under
  1000 nested calls of \<open>output\<close> to the script). The random generator is a parameter (state
  \<open>'r\<close> and draw function), so every theorem holds for every sequence of draws in range.
  Counts are \<open>int\<close> as in Python. Generators (\<open>yield\<close>) return lists. For the
  statements that need a particular sequence of draws (C27) the source is the
  replayed list \<open>draws\<close>, which draws in range for every list.

  \<^bold>\<open>Not modelled.\<close> Opening and reading files (the lines are parameters), the
  Mersenne Twister behind \<open>randrange\<close>, the frames that \<open>get\<close>, \<open>choice\<close> and
  \<open>randrange\<close> add on top of the deepest \<open>output\<close> frame (they only move the exact
  budget by a few calls), and code points above 255. Python's \<open>str.split\<close> raises
  \<open>ValueError\<close> for an empty separator; the model of \<open>split(sep)\<close> does not, since
  the program only splits on \<open>"--"\<close>.

  \<^bold>\<open>Further work.\<close> The distribution of a whole run as the product of the steps of
  C23; the exact number of nested calls as a function of the dead ends met.
\<close>

section \<open>The top-level script\<close>

text \<open>
  Lines 81--90 of \<open>markov.py\<close>: a chain of order 3 ingests the first file once and the
  second file three times (each time reopened and read from the start, so the same
  lines), then prints \<open>output(5000)\<close> and an empty line. The file contents are
  parameters (opening and reading are not modelled); what is printed is modelled as
  the text written to standard output, \<open>None\<close> when \<open>output\<close> does not return.
\<close>

definition script_ingest :: "string list \<Rightarrow> string list \<Rightarrow> markov_chain" where
  "script_ingest lovecraft zarathustra =
     fold (\<lambda>i mc. process_input mc zarathustra) [0..<3] (process_input (init 3) lovecraft)"

definition script_output :: "'r randrange \<Rightarrow> string list \<Rightarrow> string list \<Rightarrow> 'r \<Rightarrow>
    (string \<times> 'r \<times> markov_chain) option" where
  "script_output randrange lovecraft zarathustra r =
     output_chain randrange (script_ingest lovecraft zarathustra) 5000 r"

text \<open>
  The script under CPython's recursion limit: \<open>budget\<close> is the number of nested calls of
  \<open>output\<close> the interpreter admits below the first one (a little under the default
  limit of 1000).
\<close>

definition script_output_py :: "nat \<Rightarrow> 'r randrange \<Rightarrow> string list \<Rightarrow> string list \<Rightarrow> 'r \<Rightarrow>
    (py_error + string \<times> 'r \<times> markov_chain) option" where
  "script_output_py budget randrange lovecraft zarathustra r =
     output_chain_py budget randrange (script_ingest lovecraft zarathustra) 5000 r"

text \<open>\<open>print(mc.output(5000))\<close> then \<open>print()\<close>: the text and two newlines.\<close>

definition script_print :: "'r randrange \<Rightarrow> string list \<Rightarrow> string list \<Rightarrow> 'r \<Rightarrow> string option" where
  "script_print randrange lovecraft zarathustra r =
     map_option (\<lambda>(s, r', mc). s @ [CHR 0x0A] @ [CHR 0x0A])
       (script_output randrange lovecraft zarathustra r)"


lemma script_ingest_unfold:
  "script_ingest lovecraft zarathustra =
     process_input (process_input (process_input (process_input (init 3) lovecraft)
       zarathustra) zarathustra) zarathustra"
  by (simp add: script_ingest_def numeral_3_eq_3)

lemma order_script_ingest [simp]: "order (script_ingest lovecraft zarathustra) = 3"
  by (simp add: script_ingest_unfold init_def)

lemma wf_table_script_ingest: "wf_table (table (script_ingest lovecraft zarathustra))"
proof -
  have "wf_table (table (init 3))" by (simp add: init_def wf_table_def)
  then show ?thesis by (simp add: script_ingest_unfold wf_table_fold_process_paragraph
      process_input_def)
qed

lemma count_of_script_ingest:
  "count_of (table (script_ingest lovecraft zarathustra)) q v =
     int (count (mset (input_ngrams 3 lovecraft)) (q, v)) +
     3 * int (count (mset (input_ngrams 3 zarathustra)) (q, v))"
  by (simp add: script_ingest_unfold count_of_process_input init_def)

text \<open>The script is a session of four calls of \<open>process_input\<close> on a new object.\<close>

lemma script_session:
  "exec_ops rr [Process_input lovecraft, Process_input zarathustra, Process_input zarathustra,
      Process_input zarathustra] (init 3, r) =
     Some ([Ingested, Ingested, Ingested, Ingested], script_ingest lovecraft zarathustra, r)"
  by (simp add: exec_ops.simps exec_op_def script_ingest_unfold)

lemma no_space_tokens_script_ingest: "no_space_tokens (table (script_ingest lovecraft zarathustra))"
  using exec_ops_state [OF script_session [of _ lovecraft zarathustra undefined]] by simp

lemma input_ngrams_single_tokens:
  assumes "list_all (\<lambda>p. length (tokenize p) \<le> 1) (get_paragraphs lines)"
    and "(q, v) \<in> set (input_ngrams k lines)"
  shows "q = start_prefix k"
proof -
  from assms(2) obtain p where p: "p \<in> set (get_paragraphs lines)"
    and qv: "(q, v) \<in> set (ngrams (start_prefix k) (tokenize p))"
    by (auto simp: input_ngrams_def)
  from assms(1) p have "length (tokenize p) \<le> 1" by (simp add: list_all_iff)
  then have "tokenize p = [] \<or> (\<exists>w. tokenize p = [w])"
    by (cases "tokenize p") simp_all
  with qv show ?thesis by auto
qed

lemma wf_counts_all_zero:
  assumes "wf_counts cs" "\<And>v. get_default 0 cs v = 0"
  shows "cs = []"
proof (rule ccontr)
  assume "cs \<noteq> []"
  then obtain x where "x \<in> fst ` set cs" by (cases cs) auto
  from wf_counts_mem_count [OF assms(1) this] assms(2) [of x] show False by simp
qed

lemma slide_start_neq: "slide (start_prefix 3) w \<noteq> start_prefix 3"
  by (simp add: slide_def start_prefix_def numeral_3_eq_3)

section \<open>Properties of the whole program\<close>

text \<open>
  Claim C14. The statistics the script builds: every count of its table is the number
  of occurrences of that n-gram in the first text plus three times the number in the
  second.
\<close>

theorem script_counts:
  "count_of (table (script_ingest lovecraft zarathustra)) q v =
     int (count (mset (input_ngrams 3 lovecraft)) (q, v)) +
     3 * int (count (mset (input_ngrams 3 zarathustra)) (q, v))"
  by (simp add: script_ingest_unfold count_of_process_input init_def)

text \<open>
  Claim C15. The script always halts in CPython: whatever the texts, the random draws
  and the interpreter's budget of nested calls, \<open>output(5000)\<close> either returns a text
  or raises \<open>RecursionError\<close>; it never runs forever. The \<open>while\<close> loop appends a token
  or recurses, and every recursion spends budget. (The unbounded model
  \<open>output_loop\<close> may diverge, C2 and C16; CPython raises instead.)
\<close>

theorem script_halts: "\<exists>v. script_output_py b rr lovecraft zarathustra r = Some v"
  unfolding script_output_py_def output_chain_py_def by (rule output_py_total)

text \<open>
  Claim C16. The script never prints if no text yields a token: the table stays empty
  and \<open>output(5000)\<close> recurses without end.
\<close>

theorem script_diverges:
  assumes "input_ngrams 3 lovecraft = []" "input_ngrams 3 zarathustra = []"
  shows "script_output rr lovecraft zarathustra r = None"
proof -
  have "table (script_ingest lovecraft zarathustra) = []"
    using assms by (simp add: script_ingest_unfold process_input_no_ngrams init_def)
  then have dead: "succs (table (script_ingest lovecraft zarathustra)) (start_prefix 3) = []"
    by (simp add: succs_def)
  show ?thesis
  proof (rule ccontr)
    assume "script_output rr lovecraft zarathustra r \<noteq> None"
    then obtain y where ret: "output_loop rr 5000 (start_prefix (order (script_ingest lovecraft
        zarathustra))) [] r (script_ingest lovecraft zarathustra) = Some y"
      by (auto simp: script_output_def output_chain_def)
    from output_loop_dead_start [OF ret] dead show False by simp
  qed
qed


lemma script_diverges_witness:
  "input_ngrams 3 [''\<newline>''] = [] \<and> input_ngrams 3 [] = [] \<and>
   script_output (\<lambda>(s::int) n. (s mod n, s + 1)) [''\<newline>''] [] 0 = None"
proof -
  have a: "input_ngrams 3 [''\<newline>''] = []" and b: "input_ngrams 3 [] = []"
    by (simp_all add: input_ngrams_def get_paragraphs_def py_strip_ws_def py_strip_by_def
        is_space_def py_whitespace_def)
  from a b script_diverges [OF a b, where rr = "\<lambda>(s::int) n. (s mod n, s + 1)" and r = 0]
  show ?thesis by blast
qed


text \<open>
  Claim C25. Joining the lines of a paragraph never merges or splits words across a
  line: the tokens of a paragraph as \<open>get_paragraphs\<close> renders it are the tokens of its
  lines, in order.
\<close>

theorem tokenize_render_paragraph:
  "tokenize (render_paragraph b) = concat (map tokenize b)"
proof (induction b)
  case Nil
  then show ?case by (simp add: tokenize_def py_split_def)
next
  case (Cons l b)
  have "render_paragraph b = [] \<or> is_space (hd (render_paragraph b))"
    by (cases b) (simp_all add: space_not_punct)
  then show ?case
    using Cons.IH tokenize_append_space [of "render_paragraph b" l]
    by (simp add: tokenize_Cons_space space_not_punct)
qed


text \<open>
  Claim C31. What the script prints is bounded in paragraphs: whenever it prints, the
  text has at most 10000 newline characters, at most 9998 from the paragraph breaks
  of \<open>output(5000)\<close> and two from the two \<open>print\<close> calls. The tables the script
  builds meet the conditions of C26 (ingestion keeps tokens free of whitespace), so
  \<open>output\<close> nests at most 4999 calls; the bound does not exclude CPython's default
  recursion limit of 1000.
\<close>

theorem script_print_paragraphs:
  assumes "randrange_ok rr"
  shows "pred_option (\<lambda>out. line_breaks out \<le> 2 * 5000) (script_print rr lovecraft zarathustra r)"
proof (cases "script_output rr lovecraft zarathustra r")
  case None
  then show ?thesis by (simp add: script_print_def)
next
  case (Some y)
  obtain s r' mc' where y: "y = (s, r', mc')" by (rule prod_cases3)
  from Some y have ret: "output_loop rr 5000 (start_prefix (order (script_ingest lovecraft zarathustra)))
      [] r (script_ingest lovecraft zarathustra) = Some (s, r', mc')"
    by (simp add: script_output_def output_chain_def)
  from output_loop_line_breaks [OF ret] assms wf_table_script_ingest no_space_tokens_script_ingest
  have "line_breaks s \<le> 2 * (5000 - 1)" by simp
  with Some y show ?thesis by (simp add: script_print_def)
qed

lemma script_print_paragraphs_witness:
  "randrange_ok (\<lambda>(s::int) n. (s mod n, s + 1)) \<and>
   pred_option (\<lambda>out. line_breaks out \<le> 2 * 5000)
     (script_print (\<lambda>(s::int) n. (s mod n, s + 1)) [''a'', ''''] [] 0)"
  using randrange_ok_mod script_print_paragraphs [OF randrange_ok_mod] by blast


text \<open>
  Claim C34. The script crashes with \<open>RecursionError\<close> on texts whose paragraphs have at
  most one token each (and at least one has one): every successor of the start
  context is then a dead end, each segment of \<open>output(5000)\<close> is one token, and the
  run needs 4999 nested calls. With any budget below that, in particular the default
  limit of 1000, the script raises before printing.
\<close>

theorem script_recursion_error:
  assumes "randrange_ok rr" "b < 4999"
    and "list_ex (\<lambda>p. tokenize p \<noteq> []) (get_paragraphs lovecraft)"
    and "list_all (\<lambda>p. length (tokenize p) \<le> 1) (get_paragraphs lovecraft)"
    and "list_all (\<lambda>p. length (tokenize p) \<le> 1) (get_paragraphs zarathustra)"
  shows "script_output_py b rr lovecraft zarathustra r = Some (Inl RecursionError)"
proof -
  let ?mc = "script_ingest lovecraft zarathustra"
  from assms(3) obtain p w ws where p: "p \<in> set (get_paragraphs lovecraft)"
    and t: "tokenize p = w # ws" by (auto simp: list_ex_iff neq_Nil_conv)
  have "(start_prefix 3, w) \<in> set (ngrams (start_prefix 3) (tokenize p))" using t by simp
  with p have "(start_prefix 3, w) \<in> set (input_ngrams 3 lovecraft)"
    unfolding input_ngrams_def by auto
  then have "0 < count (mset (input_ngrams 3 lovecraft)) (start_prefix 3, w)"
    by (simp add: count_mset_gt_0)
  then have "0 < count_of (table ?mc) (start_prefix 3) w"
    unfolding count_of_script_ingest by linarith
  then have live: "succs (table ?mc) (start_prefix (order ?mc)) \<noteq> []"
    by (simp add: count_of_pos_succs)
  have dead: "succs (table ?mc) (slide (start_prefix (order ?mc)) u) = []" for u
  proof (rule wf_counts_all_zero)
    show "wf_counts (succs (table ?mc) (slide (start_prefix (order ?mc)) u))"
      by (rule wf_table_succs [OF wf_table_script_ingest])
    fix v
    have "(slide (start_prefix 3) u, v) \<notin> set (input_ngrams 3 lovecraft)"
    proof
      assume "(slide (start_prefix 3) u, v) \<in> set (input_ngrams 3 lovecraft)"
      from input_ngrams_single_tokens [OF assms(4) this] slide_start_neq show False by simp
    qed
    moreover have "(slide (start_prefix 3) u, v) \<notin> set (input_ngrams 3 zarathustra)"
    proof
      assume "(slide (start_prefix 3) u, v) \<in> set (input_ngrams 3 zarathustra)"
      from input_ngrams_single_tokens [OF assms(5) this] slide_start_neq show False by simp
    qed
    ultimately have c1: "count (mset (input_ngrams 3 lovecraft)) (slide (start_prefix 3) u, v) = 0"
      and c2: "count (mset (input_ngrams 3 zarathustra)) (slide (start_prefix 3) u, v) = 0"
      by (simp_all only: count_eq_zero_iff set_mset_mset not_False_eq_True)
    have "count_of (table ?mc) (slide (start_prefix 3) u) v = 0"
      unfolding count_of_script_ingest c1 c2 by simp
    then show "get_default 0 (succs (table ?mc) (slide (start_prefix (order ?mc)) u)) v = 0"
      by (simp add: count_of_def)
  qed
  from assms(2) have "b + 1 < 5000" by simp
  from output_py_recursion_error [OF assms(1) wf_table_script_ingest live dead this]
  show ?thesis by (simp add: script_output_py_def output_chain_py_def)
qed

lemma script_recursion_error_witness:
  "randrange_ok (\<lambda>(s::int) n. (s mod n, s + 1)) \<and> (997::nat) < 4999 \<and>
   list_ex (\<lambda>p. tokenize p \<noteq> []) (get_paragraphs [''a'', '''']) \<and>
   list_all (\<lambda>p. length (tokenize p) \<le> 1) (get_paragraphs [''a'', '''']) \<and>
   list_all (\<lambda>p. length (tokenize p) \<le> 1) (get_paragraphs []) \<and>
   script_output_py 997 (\<lambda>(s::int) n. (s mod n, s + 1)) [''a'', ''''] [] 0 = Some (Inl RecursionError)"
proof -
  have p: "get_paragraphs [''a'', ''''] = ['' a'']"
    by (simp add: get_paragraphs_def py_strip_ws_def py_strip_by_def is_space_def py_whitespace_def)
  have t: "tokenize '' a'' = [''a'']"
    by (simp add: tokenize_def py_split_def is_space_def py_whitespace_def clause_parts_def
        punctuation_def py_endswith_def simplify_def py_strip_def py_strip_by_def)
  have h1: "list_ex (\<lambda>p. tokenize p \<noteq> []) (get_paragraphs [''a'', ''''])" by (simp add: p t)
  have h2: "list_all (\<lambda>p. length (tokenize p) \<le> 1) (get_paragraphs [''a'', ''''])"
    by (simp add: p t)
  have h3: "list_all (\<lambda>p. length (tokenize p) \<le> 1) (get_paragraphs [])"
    by (simp add: get_paragraphs_def)
  have b: "(997::nat) < 4999" by simp
  from script_recursion_error [OF randrange_ok_mod b h1 h2 h3, of 0] randrange_ok_mod b h1 h2 h3
  show ?thesis by simp
qed

end
